theory Spec2Isabelle
  imports Complex_Main "HOL-Library.Word"
begin

section \<open>Data model\<close>

text \<open>
  The program is \<^verbatim>\<open>modules/pose_estimation.py\<close>. Its arrays are numpy arrays of
  floats and of node numbers. A float is modelled as a real, a node number, a label and
  a row number as a natural number (the program only produces non-negative ones), a
  2-D array as the list of its rows and a dictionary as a map. Every exception the
  program can raise on such data is a value of \<open>error\<close>; \<open>ZeroDivisionError\<close> and
  \<open>OverflowError\<close> are raised by a score function and by the conversion of its results
  to an array. \<open>PathBroken\<close> is the
  \<open>PATH_BROKEN\<close> failure of the specification's \<open>trace_path\<close>. \<open>FloatNaN\<close> is no
  exception: it marks a run in which a NaN would enter arithmetic that is modelled on
  the reals, and which the model follows no further.
\<close>

datatype error =
  IndexError | KeyError | ValueError | ZeroDivisionError | OverflowError | PathBroken | FloatNaN

type_synonym matrix = "real list list"

type_synonym path_matrix = "nat list list"

text \<open>\<^verbatim>\<open>label_adj_list[A][B]\<close>: the expected distance between labels A and B.\<close>

type_synonym label_adj = "nat \<rightharpoonup> (nat \<rightharpoonup> real)"

text \<open>
  \<^verbatim>\<open>path_matrix.shape[1]\<close>. A numpy matrix is rectangular, so the number of columns is
  the length of any row; with no row at all the loops over the rows never read it.
\<close>

definition n_path_nodes :: "path_matrix \<Rightarrow> nat" where
  "n_path_nodes P = (case P of [] \<Rightarrow> 0 | r # _ \<Rightarrow> length r)"

section \<open>filter_by_path\<close>

text \<open>\<^verbatim>\<open>np.zeros(input_matrix.shape)\<close>\<close>

definition zeros_like :: "matrix \<Rightarrow> matrix" where
  "zeros_like S = map (\<lambda>row. map (\<lambda>_. 0) row) S"

text \<open>The index triples \<open>(i, j, k)\<close> in the order of the three nested \<^verbatim>\<open>for\<close> loops.\<close>

definition loop_triples :: "nat \<Rightarrow> nat \<Rightarrow> (nat \<times> nat \<times> nat) list" where
  "loop_triples n_paths n_nodes =
     concat (map (\<lambda>i. concat (map (\<lambda>j. map (\<lambda>k. (i, j, k)) [0..<n_nodes]) [0..<n_nodes]))
                 [0..<n_paths])"

text \<open>
  The loop body at \<open>(i, j, k)\<close>, on the matrix \<open>F\<close> built so far.
  \<^verbatim>\<open>part_connections[j]\<close> raises KeyError when \<open>j\<close> is no key; the reads
  \<^verbatim>\<open>path_matrix[i, j]\<close>, \<^verbatim>\<open>input_matrix[a, b]\<close> and the write \<^verbatim>\<open>filtered_matrix[a, b]\<close>
  raise IndexError out of range.
\<close>

definition filter_step ::
  "matrix \<Rightarrow> path_matrix \<Rightarrow> label_adj \<Rightarrow> nat \<times> nat \<times> nat \<Rightarrow> matrix \<Rightarrow> error + matrix" where
  "filter_step S P C t F =
     (case t of (i, j, k) \<Rightarrow>
        (case C j of
           None \<Rightarrow> Inl KeyError
         | Some m \<Rightarrow>
             (case m k of
                None \<Rightarrow> Inr F
              | Some _ \<Rightarrow>
                  if i < length P \<and> j < length (P ! i) \<and> k < length (P ! i) then
                    (let a = P ! i ! j; b = P ! i ! k in
                     if a < length S \<and> b < length (S ! a)
                     then Inr (F[a := (F ! a)[b := S ! a ! b]])
                     else Inl IndexError)
                  else Inl IndexError)))"

fun filter_loop ::
  "matrix \<Rightarrow> path_matrix \<Rightarrow> label_adj \<Rightarrow> (nat \<times> nat \<times> nat) list \<Rightarrow> matrix \<Rightarrow> error + matrix" where
  "filter_loop S P C [] F = Inr F"
| "filter_loop S P C (t # ts) F =
     (case filter_step S P C t F of
        Inl e \<Rightarrow> Inl e
      | Inr F' \<Rightarrow> filter_loop S P C ts F')"

definition filter_by_path :: "matrix \<Rightarrow> path_matrix \<Rightarrow> label_adj \<Rightarrow> error + matrix" where
  "filter_by_path input_matrix path_matrix part_connections =
     filter_loop input_matrix path_matrix part_connections
       (loop_triples (length path_matrix) (n_path_nodes path_matrix))
       (zeros_like input_matrix)"

text \<open>Two arrays have the same shape.\<close>

definition same_shape :: "matrix \<Rightarrow> matrix \<Rightarrow> bool" where
  "same_shape A B = (map length A = map length B)"

text \<open>
  Entry \<open>(i, j)\<close> is kept: some row \<open>r\<close> of the path matrix and some label pair
  \<open>(a, b)\<close> of the part connections have \<open>PATHS[r, a] = i\<close> and \<open>PATHS[r, b] = j\<close>.
\<close>

definition allowed_pair :: "label_adj \<Rightarrow> nat \<Rightarrow> nat \<Rightarrow> bool" where
  "allowed_pair C a b = (case C a of None \<Rightarrow> False | Some m \<Rightarrow> m b \<noteq> None)"

definition on_common_path :: "path_matrix \<Rightarrow> label_adj \<Rightarrow> nat \<Rightarrow> nat \<Rightarrow> bool" where
  "on_common_path P C i j =
     (\<exists>r \<in> {..<length P}. \<exists>a \<in> {..<n_path_nodes P}. \<exists>b \<in> {..<n_path_nodes P}.
        allowed_pair C a b \<and> P ! r ! a = i \<and> P ! r ! b = j)"


text \<open>The loop body raises nothing at the triple \<open>t\<close>.\<close>

definition step_ok :: "matrix \<Rightarrow> path_matrix \<Rightarrow> label_adj \<Rightarrow> nat \<times> nat \<times> nat \<Rightarrow> bool" where
  "step_ok S P C t =
     (case t of (i, j, k) \<Rightarrow>
        (case C j of
           None \<Rightarrow> False
         | Some m \<Rightarrow>
             (case m k of
                None \<Rightarrow> True
              | Some _ \<Rightarrow> i < length P \<and> j < length (P ! i) \<and> k < length (P ! i) \<and>
                  P ! i ! j < length S \<and> P ! i ! k < length (S ! (P ! i ! j)))))"

definition step_hits :: "path_matrix \<Rightarrow> label_adj \<Rightarrow> nat \<times> nat \<times> nat \<Rightarrow> nat \<Rightarrow> nat \<Rightarrow> bool" where
  "step_hits P C t x y =
     (case t of (i, j, k) \<Rightarrow> allowed_pair C j k \<and> P ! i ! j = x \<and> P ! i ! k = y)"

text \<open>An \<open>n \<times> n\<close> array, and a path matrix whose entries are nodes below \<open>n\<close>.\<close>

definition square :: "nat \<Rightarrow> 'a list list \<Rightarrow> bool" where
  "square n A = (length A = n \<and> (\<forall>row \<in> set A. length row = n))"

definition paths_below :: "nat \<Rightarrow> path_matrix \<Rightarrow> bool" where
  "paths_below n P =
     (\<forall>row \<in> set P. length row = n_path_nodes P \<and> (\<forall>v \<in> set row. v < n))"

text \<open>Every column number of the path matrix is a key of the part connections.\<close>

definition labels_are_keys :: "path_matrix \<Rightarrow> label_adj \<Rightarrow> bool" where
  "labels_are_keys P C = (P = [] \<or> (\<forall>j \<in> {..<n_path_nodes P}. C j \<noteq> None))"

section \<open>foot_to_pop\<close>

text \<open>
  \<open>foot_to_pop\<close> writes into arrays, and which array a write reaches depends on
  whether numpy hands out a copy or a view. The float arrays therefore live in a
  store: an address is a position in the list of all arrays, allocation appends.
  Indexing with an array of row numbers (\<^verbatim>\<open>population[path_1, :]\<close>) allocates a new
  array; indexing with one row number (\<^verbatim>\<open>population[min_path[0], :]\<close>) is a view, read
  at the moment it is used.
\<close>

type_synonym store = "matrix list"

definition alloc :: "store \<Rightarrow> matrix \<Rightarrow> store \<times> nat" where
  "alloc h A = (h @ [A], length h)"

text \<open>\<^verbatim>\<open>np.argmin\<close>: the position of the first minimum.\<close>

fun argmin :: "'a::linorder list \<Rightarrow> nat" where
  "argmin [] = 0"
| "argmin [x] = 0"
| "argmin (x # y # ys) = (let m = argmin (y # ys) in if x \<le> (y # ys) ! m then 0 else Suc m)"

text \<open>
  \<open>population\<close> is the address of the population array in the store \<open>h\<close>. The
  result is the new store and the addresses of \<open>pop_1\<close> and \<open>pop_2\<close>.
\<close>

definition foot_to_pop ::
  "store \<Rightarrow> nat \<Rightarrow> path_matrix \<Rightarrow> 'a::linorder list \<Rightarrow> nat \<Rightarrow> nat \<Rightarrow> error + store \<times> nat \<times> nat" where
  "foot_to_pop h population path_matrix path_dist foot_num_1 foot_num_2 =
     (if \<not> (foot_num_1 < length path_matrix \<and> foot_num_2 < length path_matrix)
      then Inl IndexError
      else
        let path_1 = path_matrix ! foot_num_1; path_2 = path_matrix ! foot_num_2 in
        if \<not> ((\<forall>v \<in> set path_1. v < length (h ! population)) \<and> (\<forall>v \<in> set path_2. v < length (h ! population)))
        then Inl IndexError
        else
          let (h1, pop_1) = alloc h (map (\<lambda>v. h ! population ! v) path_1);
              (h2, pop_2) = alloc h1 (map (\<lambda>v. h1 ! population ! v) path_2)
          in
          if path_dist = [] then Inl ValueError
          else if \<not> argmin path_dist < length path_matrix then Inl IndexError
          else
            let min_path = path_matrix ! argmin path_dist in
            if min_path = [] then Inl IndexError
            else if \<not> min_path ! 0 < length (h2 ! population) then Inl IndexError
            else
              let head_row = min_path ! 0 in
              if h2 ! pop_1 = [] \<or> h2 ! pop_2 = [] then Inl IndexError
              else
                let h3 = h2[pop_1 := (h2 ! pop_1)[0 := h2 ! population ! head_row]];
                    h4 = h3[pop_2 := (h3 ! pop_2)[0 := h3 ! population ! head_row]]
                in Inr (h4, pop_1, pop_2))"

section \<open>inside_spheres, inside_radii, select_best_feet\<close>

text \<open>Running a function that may raise over a list, stopping at the first exception.\<close>

fun map_err :: "('a \<Rightarrow> error + 'b) \<Rightarrow> 'a list \<Rightarrow> error + 'b list" where
  "map_err f [] = Inr []"
| "map_err f (x # xs) =
     (case f x of
        Inl e \<Rightarrow> Inl e
      | Inr y \<Rightarrow> (case map_err f xs of Inl e \<Rightarrow> Inl e | Inr ys \<Rightarrow> Inr (y # ys)))"

text \<open>
  \<^verbatim>\<open>a | b\<close> on two 1-D boolean arrays, with numpy's broadcasting: equal lengths, or one
  of them of length one; any other pair of lengths raises ValueError.
\<close>

definition np_or :: "bool list \<Rightarrow> bool list \<Rightarrow> error + bool list" where
  "np_or xs ys =
     (if length xs = length ys then Inr (map (\<lambda>(x, y). x \<or> y) (zip xs ys))
      else if length xs = 1 then Inr (map (\<lambda>y. hd xs \<or> y) ys)
      else if length ys = 1 then Inr (map (\<lambda>x. x \<or> hd ys) xs)
      else Inl ValueError)"

text \<open>The loop of \<open>inside_spheres\<close> over the sphere centres.\<close>

fun spheres_loop :: "matrix \<Rightarrow> real \<Rightarrow> nat list \<Rightarrow> bool list \<Rightarrow> error + bool list" where
  "spheres_loop D r [] in_spheres = Inr in_spheres"
| "spheres_loop D r (i # point_nums) in_spheres =
     (if \<not> i < length D then Inl IndexError
      else
        let distances = D ! i;
            in_current_sphere = map (\<lambda>d. d \<le> r) distances
        in case np_or in_spheres in_current_sphere of
             Inl e \<Rightarrow> Inl e
           | Inr in_spheres' \<Rightarrow> spheres_loop D r point_nums in_spheres')"

definition inside_spheres :: "matrix \<Rightarrow> nat list \<Rightarrow> real \<Rightarrow> error + bool list" where
  "inside_spheres dist_matrix point_nums r =
     spheres_loop dist_matrix r point_nums (replicate (length dist_matrix) False)"

definition inside_radii :: "matrix \<Rightarrow> path_matrix \<Rightarrow> real list \<Rightarrow> error + bool list list list" where
  "inside_radii dist_matrix path_matrix radii =
     map_err (\<lambda>path. map_err (\<lambda>r. inside_spheres dist_matrix path r) radii) path_matrix"

text \<open>\<^verbatim>\<open>itertools.combinations(range(n), 2)\<close>: the pairs \<open>(p, q)\<close>, \<open>p < q < n\<close>, in lexicographic order.\<close>

definition combinations2 :: "nat \<Rightarrow> (nat \<times> nat) list" where
  "combinations2 n = concat (map (\<lambda>p. map (\<lambda>q. (p, q)) [Suc p..<n]) [0..<n])"

text \<open>Indexing with a boolean mask keeps the positions where the mask is true.\<close>

definition mask_select :: "bool list \<Rightarrow> 'a list \<Rightarrow> 'a list" where
  "mask_select bs xs = map fst (filter snd (zip xs bs))"

text \<open>
  \<^verbatim>\<open>np.sum(score_matrix[in_spheres, :][:, in_spheres])\<close>. A boolean mask whose length is
  not the length of the indexed dimension raises IndexError. \<^verbatim>\<open>np.sum\<close> adds floats
  with rounding, in an order of its own; what it returns for an array is not computed
  here: it is the parameter \<open>np_sum\<close>, any function from the array to its sum.
\<close>

definition masked_sum :: "(matrix \<Rightarrow> real) \<Rightarrow> matrix \<Rightarrow> bool list \<Rightarrow> error + real" where
  "masked_sum np_sum score_matrix in_spheres =
     (if length in_spheres \<noteq> length score_matrix then Inl IndexError
      else
        let temp = mask_select in_spheres score_matrix in
        if \<exists>row \<in> set score_matrix. length row \<noteq> length in_spheres then Inl IndexError
        else
          let score_subset = map (mask_select in_spheres) temp
          in Inr (np_sum score_subset))"

text \<open>The score of one pair of paths at radius number \<open>i\<close> (the body of the inner loop).\<close>

definition combo_score ::
  "(matrix \<Rightarrow> real) \<Rightarrow> matrix \<Rightarrow> bool list list list \<Rightarrow> nat \<Rightarrow> nat \<times> nat \<Rightarrow> error + real" where
  "combo_score np_sum score_matrix in_spheres_list i combo =
     (let in_spheres_1 = in_spheres_list ! fst combo ! i;
          in_spheres_2 = in_spheres_list ! snd combo ! i
      in case np_or in_spheres_1 in_spheres_2 of
           Inl e \<Rightarrow> Inl e
         | Inr in_spheres \<Rightarrow> masked_sum np_sum score_matrix in_spheres)"

text \<open>
  The outer loop over the radius numbers, on the votes so far. Python's \<^verbatim>\<open>max\<close> of an
  empty sequence raises ValueError.
\<close>

fun radii_loop ::
  "(matrix \<Rightarrow> real) \<Rightarrow> matrix \<Rightarrow> bool list list list \<Rightarrow> (nat \<times> nat) list \<Rightarrow> nat list \<Rightarrow> nat list \<Rightarrow>
     error + nat list" where
  "radii_loop np_sum S in_spheres_list combos [] votes = Inr votes"
| "radii_loop np_sum S in_spheres_list combos (i # is) votes =
     (case map_err (combo_score np_sum S in_spheres_list i) combos of
        Inl e \<Rightarrow> Inl e
      | Inr combo_scores \<Rightarrow>
          if combo_scores = [] then Inl ValueError
          else
            let max_score = Max (set combo_scores);
                radius_winners = map (\<lambda>s. s = max_score) combo_scores
            in radii_loop np_sum S in_spheres_list combos is
                 (map (\<lambda>(v, w). v + (if w then 1 else 0)) (zip votes radius_winners)))"

text \<open>\<^verbatim>\<open>np.argmax\<close>: the position of the first maximum.\<close>

fun argmax :: "nat list \<Rightarrow> nat" where
  "argmax [] = 0"
| "argmax [x] = 0"
| "argmax (x # y # ys) = (let m = argmax (y # ys) in if (y # ys) ! m \<le> x then 0 else Suc m)"

definition select_best_feet ::
  "(matrix \<Rightarrow> real) \<Rightarrow> matrix \<Rightarrow> matrix \<Rightarrow> path_matrix \<Rightarrow> real list \<Rightarrow> error + nat \<times> nat" where
  "select_best_feet np_sum dist_matrix score_matrix path_matrix radii =
     (let n_paths = length path_matrix;
          n_radii = length radii
      in case inside_radii dist_matrix path_matrix radii of
           Inl e \<Rightarrow> Inl e
         | Inr in_spheres_list \<Rightarrow>
             let combos = combinations2 n_paths;
                 n_combos = length combos
             in case radii_loop np_sum score_matrix in_spheres_list combos [0..<n_radii]
                       (replicate n_combos 0) of
                  Inl e \<Rightarrow> Inl e
                | Inr votes \<Rightarrow>
                    if votes = [] then Inl ValueError
                    else Inr (combos ! argmax votes))"

text \<open>
  The voting in the words of the specification. Point \<open>k\<close> is in the sphere region of
  a path at radius \<open>r\<close> when it is within \<open>r\<close> of some point of the path (read in the
  row of the path point, as the source reads the distance matrix); the score of a pair
  of paths is the sum, by \<open>np_sum\<close>, of the score submatrix over the points in the union
  of the two regions; a pair \<open>(p, q)\<close>, \<open>p < q\<close>, of path rows wins a radius when no such
  pair has a larger score; its votes are the radii it wins.
\<close>

definition in_region :: "matrix \<Rightarrow> nat list \<Rightarrow> real \<Rightarrow> nat \<Rightarrow> bool" where
  "in_region D path r k = (\<exists>c \<in> set path. D ! c ! k \<le> r)"

definition region_points :: "matrix \<Rightarrow> path_matrix \<Rightarrow> real \<Rightarrow> nat \<times> nat \<Rightarrow> nat list" where
  "region_points D P r pq =
     filter (\<lambda>k. in_region D (P ! fst pq) r k \<or> in_region D (P ! snd pq) r k) [0..<length D]"

definition pair_score ::
  "(matrix \<Rightarrow> real) \<Rightarrow> matrix \<Rightarrow> matrix \<Rightarrow> path_matrix \<Rightarrow> real \<Rightarrow> nat \<times> nat \<Rightarrow> real" where
  "pair_score np_sum D S P r pq =
     np_sum (map (\<lambda>i. map (\<lambda>j. S ! i ! j) (region_points D P r pq)) (region_points D P r pq))"

definition is_pair :: "path_matrix \<Rightarrow> nat \<times> nat \<Rightarrow> bool" where
  "is_pair P pq = (fst pq < snd pq \<and> snd pq < length P)"

definition wins_radius ::
  "(matrix \<Rightarrow> real) \<Rightarrow> matrix \<Rightarrow> matrix \<Rightarrow> path_matrix \<Rightarrow> real \<Rightarrow> nat \<times> nat \<Rightarrow> bool" where
  "wins_radius np_sum D S P r pq =
     (\<forall>q \<in> {..<length P}. \<forall>p \<in> {..<q}.
        pair_score np_sum D S P r (p, q) \<le> pair_score np_sum D S P r pq)"

definition vote_count ::
  "(matrix \<Rightarrow> real) \<Rightarrow> matrix \<Rightarrow> matrix \<Rightarrow> path_matrix \<Rightarrow> real list \<Rightarrow> nat \<times> nat \<Rightarrow> nat" where
  "vote_count np_sum D S P radii pq =
     length (filter (\<lambda>r. wins_radius np_sum D S P r pq) radii)"

text \<open>The lexicographic order on pairs.\<close>

definition lex_le :: "nat \<times> nat \<Rightarrow> nat \<times> nat \<Rightarrow> bool" where
  "lex_le pq pq' = (fst pq < fst pq' \<or> (fst pq = fst pq' \<and> snd pq \<le> snd pq'))"

definition lex_less :: "nat \<times> nat \<Rightarrow> nat \<times> nat \<Rightarrow> bool" where
  "lex_less pq pq' = (fst pq < fst pq' \<or> (fst pq = fst pq' \<and> snd pq < snd pq'))"

text \<open>The sum of all entries without rounding, the value of \<open>np_sum\<close> when no sum rounds.\<close>

definition exact_sum :: "matrix \<Rightarrow> real" where
  "exact_sum M = sum_list (map sum_list M)"

section \<open>enforce_consistency\<close>

text \<open>
  A walking-pass table is a pandas DataFrame: its rows in order, each with its index
  label (the frame number) and the three columns. The tables live in a store of their
  own, so that \<^verbatim>\<open>df_pass.copy()\<close> is an allocation and \<^verbatim>\<open>df_consistent.loc[frame] = row\<close>
  is a write to one table of the store.
\<close>

record pass_row =
  HEAD :: "real list"
  L_FOOT :: "real list"
  R_FOOT :: "real list"

type_synonym pass_table = "(nat \<times> pass_row) list"

type_synonym table_store = "pass_table list"

text \<open>
  \<^verbatim>\<open>df.loc[frame] = row\<close> assigns to every row whose index label is \<open>frame\<close>.
\<close>

definition loc_assign :: "pass_table \<Rightarrow> nat \<Rightarrow> pass_row \<Rightarrow> pass_table" where
  "loc_assign df frame row = map (\<lambda>(f, old). if f = frame then (f, row) else (f, old)) df"

text \<open>
  The loop over \<^verbatim>\<open>enumerate(df_consistent.iterrows())\<close>, at the row numbers still to
  visit: \<open>a\<close> is the address of \<open>df_consistent\<close>. Row \<open>i\<close> is read from the table as
  it is when the loop reaches it. \<^verbatim>\<open>verified_sides[i]\<close> raises IndexError past the end
  of the sequence.
\<close>

fun consistency_loop :: "table_store \<Rightarrow> nat \<Rightarrow> bool list \<Rightarrow> nat list \<Rightarrow> error + table_store" where
  "consistency_loop st a verified_sides [] = Inr st"
| "consistency_loop st a verified_sides (i # is) =
     (if \<not> i < length verified_sides then Inl IndexError
      else if \<not> verified_sides ! i then
        (let (frame, row) = st ! a ! i;
             row' = row\<lparr>L_FOOT := R_FOOT row, R_FOOT := L_FOOT row\<rparr>
         in consistency_loop (st[a := loc_assign (st ! a) frame row']) a verified_sides is)
      else consistency_loop st a verified_sides is)"

text \<open>The input table is at address \<open>df_pass\<close>; the result is the new store and the address
  of the returned table.\<close>

definition enforce_consistency ::
  "table_store \<Rightarrow> nat \<Rightarrow> bool list \<Rightarrow> error + table_store \<times> nat" where
  "enforce_consistency st df_pass verified_sides =
     (let df_consistent = length st;
          st1 = st @ [st ! df_pass]
      in case consistency_loop st1 df_consistent verified_sides [0..<length (st1 ! df_consistent)] of
           Inl e \<Rightarrow> Inl e
         | Inr st2 \<Rightarrow> Inr (st2, df_consistent))"

text \<open>What the loop has made of row \<open>i\<close> once the row numbers \<open>is\<close> are done.\<close>

definition fix_row :: "bool list \<Rightarrow> nat list \<Rightarrow> nat \<Rightarrow> nat \<times> pass_row \<Rightarrow> nat \<times> pass_row" where
  "fix_row vs is i fr =
     (if i \<in> set is \<and> \<not> vs ! i
      then (fst fr, (snd fr)\<lparr>L_FOOT := R_FOOT (snd fr), R_FOOT := L_FOOT (snd fr)\<rparr>)
      else fr)"

section \<open>Distances and shortest paths\<close>

text \<open>
  The shortest-path distances are floats that are a real number or \<open>+\<infinity>\<close> (the
  distance of a node no path has reached).
\<close>

datatype ext = Fin real | PInf

instantiation ext :: linorder
begin

fun less_eq_ext :: "ext \<Rightarrow> ext \<Rightarrow> bool" where
  "less_eq_ext (Fin a) (Fin b) = (a \<le> b)"
| "less_eq_ext x PInf = True"
| "less_eq_ext PInf (Fin b) = False"

definition less_ext :: "ext \<Rightarrow> ext \<Rightarrow> bool" where
  "less_ext x y = (x \<le> y \<and> \<not> y \<le> x)"

instance
proof
  fix x y z :: ext
  show "(x < y) = (x \<le> y \<and> \<not> y \<le> x)" by (rule less_ext_def)
  show "x \<le> x" by (cases x) auto
  show "x \<le> y \<Longrightarrow> y \<le> z \<Longrightarrow> x \<le> z" by (cases x; cases y; cases z) auto
  show "x \<le> y \<Longrightarrow> y \<le> x \<Longrightarrow> x = y" by (cases x; cases y) auto
  show "x \<le> y \<or> y \<le> x" by (cases x; cases y) auto
qed

end

fun ext_add :: "ext \<Rightarrow> real \<Rightarrow> ext" where
  "ext_add (Fin a) w = Fin (a + w)"
| "ext_add PInf w = PInf"

text \<open>\<^verbatim>\<open>scipy.spatial.distance.cdist\<close> with its default metric: the Euclidean distance.\<close>

definition euclid :: "real list \<Rightarrow> real list \<Rightarrow> real" where
  "euclid p q = sqrt (sum_list (map (\<lambda>(a, b). (a - b)\<^sup>2) (zip p q)))"

definition cdist :: "matrix \<Rightarrow> matrix \<Rightarrow> matrix" where
  "cdist A B = map (\<lambda>p. map (\<lambda>q. euclid p q) B) A"

text \<open>
  Modelled from the spec: \<^verbatim>\<open>lin.consecutive_dist\<close> (\<^verbatim>\<open>modules/linear_algebra.py\<close> is
  not among the sources): the distances between consecutive points of a sequence,
  "consecutive segment distances along that foot's path".
\<close>

definition consecutive_dist :: "matrix \<Rightarrow> real list" where
  "consecutive_dist points = map (\<lambda>(p, q). euclid p q) (zip points (tl points))"

text \<open>
  A weighted graph on the nodes \<open>0..<N\<close>: entry \<open>v\<close> lists the outgoing edges of node
  \<open>v\<close>, each with its target and weight.
\<close>

type_synonym graph = "(nat \<times> real) list list"

text \<open>
  Modelled from the spec: \<^verbatim>\<open>gr.points_to_graph\<close> (\<^verbatim>\<open>modules/graphs.py\<close> is not among
  the sources), the labelled-DAG builder: "for each \<open>i < j\<close>, emit edge iff
  \<open>L[j] - L[i] == 1\<close> and \<open>L[i] \<in> C\<close> and \<open>L[j] \<in> C[L[i]]\<close>", with weight
  \<open>cost(distance(P[i], P[j]), C[L[i]][L[j]])\<close>; every node has an entry, also with
  no outgoing edge. A population and a label array of different lengths are an
  input-shape error.
\<close>

definition points_to_graph ::
  "matrix \<Rightarrow> nat list \<Rightarrow> label_adj \<Rightarrow> (real \<Rightarrow> real \<Rightarrow> real) \<Rightarrow> error + graph" where
  "points_to_graph P L C cost =
     (if length L \<noteq> length P then Inl ValueError
      else Inr (map (\<lambda>i. concat (map (\<lambda>j.
                  if L ! j = Suc (L ! i) then
                    (case C (L ! i) of
                       None \<Rightarrow> []
                     | Some m \<Rightarrow>
                         (case m (L ! j) of
                            None \<Rightarrow> []
                          | Some e \<Rightarrow> [(j, cost (euclid (P ! i) (P ! j)) e)]))
                  else []) [Suc i..<length P])) [0..<length P]))"

text \<open>
  Modelled from the spec: the relaxation step of \<^verbatim>\<open>gr.dag_shortest_paths\<close>, the
  shortest-path engine. "\<open>dist[v] = 0\<close> for all source nodes; \<open>dist[v] = +\<infinity>\<close> for others; \<open>prev[v] = NONE\<close>
  for all. Iterate \<open>v\<close> in topological order; for each outgoing edge \<open>(v, u, w)\<close>, if
  \<open>dist[v] + w < dist[u]\<close>, set \<open>dist[u] = dist[v] + w\<close> and \<open>prev[u] = v\<close>." The
  predecessor map has \<open>None\<close> for \<open>NONE\<close>.
\<close>

definition relax_edge ::
  "nat \<Rightarrow> nat \<times> real \<Rightarrow> nat option list \<times> ext list \<Rightarrow> nat option list \<times> ext list" where
  "relax_edge v e st =
     (case e of (u, w) \<Rightarrow>
        (case st of (prev, dists) \<Rightarrow>
           if ext_add (dists ! v) w < dists ! u
           then (prev[u := Some v], dists[u := ext_add (dists ! v) w])
           else (prev, dists)))"

text \<open>
  Modelled from the spec: \<^verbatim>\<open>gr.dag_shortest_paths\<close> itself, from the initialisation
  above and the relaxation of every edge in the given order; it returns the predecessor
  map and the distance map, both with the nodes of the graph as keys.
\<close>

definition dag_shortest_paths ::
  "graph \<Rightarrow> nat list \<Rightarrow> nat list \<Rightarrow> (nat \<rightharpoonup> nat) \<times> (nat \<rightharpoonup> ext)" where
  "dag_shortest_paths G order sources =
     (let n = length G;
          dists0 = map (\<lambda>v. if v \<in> set sources then Fin 0 else PInf) [0..<n];
          prev0 = replicate n None;
          st = fold (\<lambda>v st. fold (relax_edge v) (G ! v) st) order (prev0, dists0)
      in ((\<lambda>v. if v < n then fst st ! v else None),
          (\<lambda>v. if v < n then Some (snd st ! v) else None)))"

text \<open>
  Modelled from the spec: \<^verbatim>\<open>gr.trace_path\<close>. "Returns the index sequence from the
  source to \<open>target\<close>, reversing the predecessor chain; fails with \<open>PATH_BROKEN\<close> if any
  node in the chain has no predecessor and is not a source." Which nodes are sources
  is the first argument. A predecessor map with a cycle has no end of the chain: the
  result \<open>None\<close> stands for a call that does not return.
\<close>

partial_function (option) trace_chain ::
  "(nat \<Rightarrow> bool) \<Rightarrow> (nat \<rightharpoonup> nat) \<Rightarrow> nat \<Rightarrow> nat list \<Rightarrow> (error + nat list) option" where
  "trace_chain is_source prev u path =
     (case prev u of
        None \<Rightarrow> Some (if is_source u then Inr (u # path) else Inl PathBroken)
      | Some v \<Rightarrow> trace_chain is_source prev v (u # path))"

declare trace_chain.simps [code]

text \<open>
  Modelled from the spec: \<^verbatim>\<open>gr.trace_path\<close> itself, the chain traced back from
  \<open>target\<close> with nothing collected yet.
\<close>

definition trace_path :: "(nat \<Rightarrow> bool) \<Rightarrow> (nat \<rightharpoonup> nat) \<Rightarrow> nat \<Rightarrow> (error + nat list) option" where
  "trace_path is_source prev target = trace_chain is_source prev target []"

text \<open>The source nodes of a population: the nodes with label 0 (the heads).\<close>

definition is_head :: "nat list \<Rightarrow> nat \<Rightarrow> bool" where
  "is_head labels v = (v < length labels \<and> labels ! v = 0)"

text \<open>
  Modelled from the spec: \<^verbatim>\<open>gr.min_shortest_path\<close> on the label dictionary of
  \<^verbatim>\<open>gen.iterable_to_dict(labels)\<close>: "select the single foot with minimum \<open>dist\<close>" among
  the nodes with label \<open>l\<close> (the first one on a tie) and trace the path to it.
\<close>

definition min_shortest_path ::
  "(nat \<rightharpoonup> nat) \<Rightarrow> (nat \<rightharpoonup> ext) \<Rightarrow> nat list \<Rightarrow> nat \<Rightarrow> (error + nat list) option" where
  "min_shortest_path prev dists labels l =
     (let feet = filter (\<lambda>v. labels ! v = l) [0..<length labels] in
      if feet = [] then Some (Inl ValueError)
      else
        case map_err (\<lambda>v. case dists v of None \<Rightarrow> Inl KeyError | Some d \<Rightarrow> Inr d) feet of
          Inl e \<Rightarrow> Some (Inl e)
        | Inr ds \<Rightarrow> trace_path (is_head labels) prev (feet ! argmin ds))"

section \<open>only_consecutive_labels, pop_shortest_paths\<close>

definition only_consecutive_labels :: "label_adj \<Rightarrow> label_adj" where
  "only_consecutive_labels label_adj_list =
     (\<lambda>key_1. case label_adj_list key_1 of
        None \<Rightarrow> None
      | Some m \<Rightarrow>
          Some (case m (Suc key_1) of
                  None \<Rightarrow> Map.empty
                | Some d \<Rightarrow> [Suc key_1 \<mapsto> d]))"

definition pop_shortest_paths ::
  "matrix \<Rightarrow> nat list \<Rightarrow> label_adj \<Rightarrow> (real \<Rightarrow> real \<Rightarrow> real) \<Rightarrow>
     error + (nat \<rightharpoonup> nat) \<times> (nat \<rightharpoonup> ext)" where
  "pop_shortest_paths population labels label_adj_list weight_func =
     (case points_to_graph population labels label_adj_list weight_func of
        Inl e \<Rightarrow> Inl e
      | Inr pop_graph \<Rightarrow>
          let head_nodes = filter (\<lambda>i. labels ! i = 0) [0..<length labels];
              order = [0..<length pop_graph]
          in Inr (dag_shortest_paths pop_graph order head_nodes))"

section \<open>paths_to_foot\<close>

text \<open>
  \<^verbatim>\<open>path_matrix[i, :] = path\<close>: a path of as many nodes as the row has columns fills
  the row, a path of one node is broadcast over the row, any other length raises
  ValueError.
\<close>

definition assign_row :: "nat \<Rightarrow> 'a list \<Rightarrow> error + 'a list" where
  "assign_row ncols xs =
     (if length xs = ncols then Inr xs
      else if length xs = 1 then Inr (replicate ncols (hd xs))
      else Inl ValueError)"

text \<open>
  The loop over the foot nodes. \<open>tp\<close> is \<^verbatim>\<open>gr.trace_path\<close>, which the source calls
  as \<^verbatim>\<open>gr.trace_path(prev, foot)\<close>; \<^verbatim>\<open>dist[foot]\<close> raises KeyError on a missing key.
\<close>

fun feet_loop ::
  "((nat \<rightharpoonup> nat) \<Rightarrow> nat \<Rightarrow> (error + nat list) option) \<Rightarrow> (nat \<rightharpoonup> nat) \<Rightarrow> (nat \<rightharpoonup> 'd) \<Rightarrow>
     nat \<Rightarrow> nat list \<Rightarrow> (error + path_matrix \<times> 'd list) option" where
  "feet_loop tp prev dists ncols [] = Some (Inr ([], []))"
| "feet_loop tp prev dists ncols (foot # feet) =
     (case tp prev foot of
        None \<Rightarrow> None
      | Some (Inl e) \<Rightarrow> Some (Inl e)
      | Some (Inr path) \<Rightarrow>
          (case assign_row ncols path of
             Inl e \<Rightarrow> Some (Inl e)
           | Inr row \<Rightarrow>
               (case dists foot of
                  None \<Rightarrow> Some (Inl KeyError)
                | Some d \<Rightarrow>
                    (case feet_loop tp prev dists ncols feet of
                       None \<Rightarrow> None
                     | Some (Inl e) \<Rightarrow> Some (Inl e)
                     | Some (Inr (rows, ds)) \<Rightarrow> Some (Inr (row # rows, d # ds))))))"

text \<open>\<^verbatim>\<open>np.where(labels == max_label)[0]\<close>\<close>

definition foot_index :: "nat list \<Rightarrow> nat list" where
  "foot_index labels = filter (\<lambda>i. labels ! i = Max (set labels)) [0..<length labels]"

definition paths_to_foot ::
  "((nat \<rightharpoonup> nat) \<Rightarrow> nat \<Rightarrow> (error + nat list) option) \<Rightarrow> (nat \<rightharpoonup> nat) \<Rightarrow> (nat \<rightharpoonup> 'd) \<Rightarrow>
     nat list \<Rightarrow> (error + path_matrix \<times> 'd list) option" where
  "paths_to_foot tp prev dists labels =
     (if labels = [] then Some (Inl ValueError)
      else
        let max_label = Max (set labels)
        in feet_loop tp prev dists (max_label + 1) (foot_index labels))"

text \<open>
  A path is the predecessor chain from a source to \<open>foot\<close>: it ends in \<open>foot\<close>, each
  node but the first has the node before it as its predecessor, and the first is a
  source without predecessor.
\<close>

definition chain_to :: "(nat \<Rightarrow> bool) \<Rightarrow> (nat \<rightharpoonup> nat) \<Rightarrow> nat list \<Rightarrow> nat \<Rightarrow> bool" where
  "chain_to is_source prev path foot =
     (path \<noteq> [] \<and> last path = foot \<and> is_source (hd path) \<and> prev (hd path) = None \<and>
      (\<forall>k \<in> {..<length path - 1}. prev (path ! Suc k) = Some (path ! k)))"

section \<open>get_score_matrix\<close>

text \<open>
  A score is a float that may be NaN: the expected distance of a pair of points without
  part connection is NaN, and the score function may return NaN.
\<close>

datatype npfloat = NaN | Num real

text \<open>
  Modelled from the spec: \<^verbatim>\<open>gen.iterable_to_dict\<close>, \<^verbatim>\<open>gr.labelled_nodes_to_graph\<close> and
  \<^verbatim>\<open>gr.adj_list_to_matrix\<close> (\<^verbatim>\<open>modules/general.py\<close> and \<^verbatim>\<open>modules/graphs.py\<close> are not
  among the sources): the matrix of expected distances between all nodes, entry
  \<open>(i, j)\<close> being the expected distance of the labels of \<open>i\<close> and \<open>j\<close> if
  "\<open>(label(i), label(j))\<close> is an allowed (possibly non-adjacent) part connection", and
  NaN for a pair without expected distance.
\<close>

definition expected_dist :: "nat list \<Rightarrow> label_adj \<Rightarrow> nat \<Rightarrow> nat \<Rightarrow> npfloat" where
  "expected_dist labels C i j =
     (case C (labels ! i) of
        None \<Rightarrow> NaN
      | Some m \<Rightarrow> (case m (labels ! j) of None \<Rightarrow> NaN | Some e \<Rightarrow> Num e))"

text \<open>
  Modelled from the spec: the matrix that \<^verbatim>\<open>gr.adj_list_to_matrix\<close> returns for the
  graph of expected distances, one row and one column per node.
\<close>

definition expected_matrix :: "nat list \<Rightarrow> label_adj \<Rightarrow> npfloat list list" where
  "expected_matrix labels C =
     map (\<lambda>i. map (\<lambda>j. expected_dist labels C i j) [0..<length labels]) [0..<length labels]"

text \<open>
  \<^verbatim>\<open>np.vectorize(score_func)(dist_matrix, expected_dist_matrix)\<close> pairs the entries of
  two square matrices: of the same size, or one of them \<open>1 \<times> 1\<close> and broadcast; any
  other pair of sizes raises ValueError, and so does an input without entries.
\<close>

definition vectorize_pairs :: "matrix \<Rightarrow> npfloat list list \<Rightarrow> error + (real \<times> npfloat) list list" where
  "vectorize_pairs D E =
     (if D = [] \<or> E = [] then Inl ValueError
      else if length D = length E then Inr (map (\<lambda>(ds, es). zip ds es) (zip D E))
      else if length E = 1 then Inr (map (map (\<lambda>d. (d, E ! 0 ! 0))) D)
      else if length D = 1 then Inr (map (map (\<lambda>e. (D ! 0 ! 0, e))) E)
      else Inl ValueError)"

text \<open>
  A score function is a Python function of two arguments. \<^verbatim>\<open>np.vectorize\<close> calls it
  with Python floats, the second of which may be NaN, and it returns a Python number
  or raises: an exception in the score function is an exception of the call of
  \<open>get_score_matrix\<close>. The number is a float, or an int that fits the 64 bits of the
  array type \<^verbatim>\<open>int64\<close>.
\<close>

datatype pyval = PyInt "64 word" | PyFloat npfloat

type_synonym score_function = "real \<Rightarrow> npfloat \<Rightarrow> error + pyval"

text \<open>
  Modelled from the spec: the canonical score function, which is not among the sources,
  "\<open>score(m,e) = 1 \<minus> (m/e \<minus> 1)\<^sup>2\<close>" as a Python function of two floats. A NaN
  argument makes the result NaN, and the division of Python floats raises
  ZeroDivisionError on a zero divisor: a "zero or near-zero expected length (would
  divide by zero in the canonical score)".
\<close>

definition canonical_score :: score_function where
  "canonical_score m e =
     (case e of
        NaN \<Rightarrow> Inr (PyFloat NaN)
      | Num b \<Rightarrow> if b = 0 then Inl ZeroDivisionError else Inr (PyFloat (Num (1 - (m / b - 1)\<^sup>2))))"

text \<open>
  \<^verbatim>\<open>np.vectorize(score_func)\<close> is called without \<^verbatim>\<open>otypes\<close>: the type of the returned
  array is that of the first output, and every output is converted to it. The conversion
  of an int to a float rounds; the model takes the rounding \<open>np_float\<close> as a
  parameter. The conversion of a float to an int truncates towards zero, and raises
  ValueError on NaN and OverflowError on a float out of the range of \<^verbatim>\<open>int64\<close>.
  An array of ints is modelled by the floats of the same values.
\<close>

definition py_trunc :: "real \<Rightarrow> int" where
  "py_trunc x = (if 0 \<le> x then \<lfloor>x\<rfloor> else \<lceil>x\<rceil>)"

fun to_dtype :: "(int \<Rightarrow> real) \<Rightarrow> pyval \<Rightarrow> pyval \<Rightarrow> error + npfloat" where
  "to_dtype np_float (PyFloat _) (PyFloat x) = Inr x"
| "to_dtype np_float (PyFloat _) (PyInt k) = Inr (Num (np_float (sint k)))"
| "to_dtype np_float (PyInt _) (PyInt k) = Inr (Num (of_int (sint k)))"
| "to_dtype np_float (PyInt _) (PyFloat NaN) = Inl ValueError"
| "to_dtype np_float (PyInt _) (PyFloat (Num x)) =
     (if - (2 ^ 63) \<le> py_trunc x \<and> py_trunc x < 2 ^ 63 then Inr (Num (of_int (py_trunc x)))
      else Inl OverflowError)"

fun first_output :: "pyval list list \<Rightarrow> pyval option" where
  "first_output ((v # _) # _) = Some v"
| "first_output _ = None"

text \<open>
  The call of the vectorized function on the paired entries: the score function is
  called on every pair, row by row, and the first exception ends the call; then the
  outputs are converted to the type of the first one. Without any pair there is no
  first output and the call raises ValueError.
\<close>

definition vectorize_call ::
  "(int \<Rightarrow> real) \<Rightarrow> score_function \<Rightarrow> (real \<times> npfloat) list list \<Rightarrow> error + npfloat list list" where
  "vectorize_call np_float score_func pairs =
     (case map_err (map_err (\<lambda>(d, e). score_func d e)) pairs of
        Inl e \<Rightarrow> Inl e
      | Inr outputs \<Rightarrow>
          (case first_output outputs of
             None \<Rightarrow> Inl ValueError
           | Some v \<Rightarrow> map_err (map_err (to_dtype np_float v)) outputs))"

text \<open>\<^verbatim>\<open>score_matrix[np.isnan(score_matrix)] = 0\<close>\<close>

definition nan_to_zero :: "npfloat list list \<Rightarrow> npfloat list list" where
  "nan_to_zero M = map (map (\<lambda>s. if s = NaN then Num 0 else s)) M"

definition get_score_matrix ::
  "(int \<Rightarrow> real) \<Rightarrow> matrix \<Rightarrow> nat list \<Rightarrow> label_adj \<Rightarrow> score_function \<Rightarrow>
     error + npfloat list list \<times> matrix" where
  "get_score_matrix np_float population labels label_adj_list score_func =
     (let dist_matrix = cdist population population;
          expected_dist_matrix = expected_matrix labels label_adj_list
      in case vectorize_pairs dist_matrix expected_dist_matrix of
           Inl e \<Rightarrow> Inl e
         | Inr pairs \<Rightarrow>
             (case vectorize_call np_float score_func pairs of
                Inl e \<Rightarrow> Inl e
              | Inr score_matrix \<Rightarrow> Inr (nan_to_zero score_matrix, dist_matrix)))"

text \<open>A float matrix without NaN, read as a matrix of reals.\<close>

definition reals_of :: "npfloat list list \<Rightarrow> matrix option" where
  "reals_of M =
     (if \<exists>row \<in> set M. NaN \<in> set row then None
      else Some (map (map (\<lambda>s. case s of NaN \<Rightarrow> 0 | Num x \<Rightarrow> x)) M))"

section \<open>process_frame\<close>

text \<open>
  The population is the array at address \<open>population\<close> of the store. Only
  \<open>foot_to_pop\<close> writes to arrays it did not create itself, so only it is given the
  store; the functions before it read the population and build their own results.
  The float arithmetic that the model leaves open, the sum \<open>np_sum\<close> of a matrix and the
  conversion \<open>np_float\<close> of an int, is passed on to the functions that use it.
\<close>

definition process_frame ::
  "(matrix \<Rightarrow> real) \<Rightarrow> (int \<Rightarrow> real) \<Rightarrow> store \<Rightarrow> nat \<Rightarrow> nat list \<Rightarrow> label_adj \<Rightarrow> real list \<Rightarrow>
     (real \<Rightarrow> real \<Rightarrow> real) \<Rightarrow> score_function \<Rightarrow> (error + store \<times> nat \<times> nat) option" where
  "process_frame np_sum np_float h population labels label_adj_list radii cost_func score_func =
     (let cons_label_adj_list = only_consecutive_labels label_adj_list in
      case pop_shortest_paths (h ! population) labels cons_label_adj_list cost_func of
        Inl e \<Rightarrow> Some (Inl e)
      | Inr (prev, dists) \<Rightarrow>
          (case paths_to_foot (trace_path (is_head labels)) prev dists labels of
             None \<Rightarrow> None
           | Some (Inl e) \<Rightarrow> Some (Inl e)
           | Some (Inr (path_matrix, path_dist)) \<Rightarrow>
               (case get_score_matrix np_float (h ! population) labels label_adj_list
                       score_func of
                  Inl e \<Rightarrow> Some (Inl e)
                | Inr (score_matrix, dist_matrix) \<Rightarrow>
                    (case reals_of score_matrix of
                       None \<Rightarrow> Some (Inl FloatNaN)
                     | Some scores \<Rightarrow>
                         (case filter_by_path scores path_matrix label_adj_list of
                            Inl e \<Rightarrow> Some (Inl e)
                          | Inr filtered_score_matrix \<Rightarrow>
                              (case select_best_feet np_sum dist_matrix filtered_score_matrix
                                      path_matrix radii of
                                 Inl e \<Rightarrow> Some (Inl e)
                               | Inr (foot_1, foot_2) \<Rightarrow>
                                   Some (foot_to_pop h population path_matrix path_dist
                                           foot_1 foot_2)))))))"

section \<open>estimate_lengths\<close>

text \<open>
  A pandas Series is the list of its entries in order, each with its index label (the
  frame number); \<^verbatim>\<open>series.loc[f]\<close> is the entry with label \<open>f\<close> and raises KeyError
  without one.
\<close>

type_synonym 'a series = "(nat \<times> 'a) list"

text \<open>
  \<^verbatim>\<open>{i: {i + 1: length} for i, length in enumerate(lengths)}\<close>, then
  \<^verbatim>\<open>length_dict[n_lengths] = {}\<close>.
\<close>

definition length_dict_of :: "nat \<Rightarrow> real list \<Rightarrow> label_adj" where
  "length_dict_of n_lengths lengths =
     (\<lambda>i. if i = n_lengths then Some Map.empty
          else if i < length lengths then Some [Suc i \<mapsto> lengths ! i]
          else None)"

text \<open>
  The body of the loop over the frames, for one frame: the row written to
  \<^verbatim>\<open>length_array[i, :]\<close>. \<^verbatim>\<open>population[min_path]\<close> raises IndexError on a node that is
  no row of the population.
\<close>

definition frame_lengths ::
  "(real \<Rightarrow> real \<Rightarrow> real) \<Rightarrow> label_adj \<Rightarrow> nat \<Rightarrow> matrix \<Rightarrow> nat list \<Rightarrow> (error + real list) option" where
  "frame_lengths cost_func length_dict n_lengths population labels =
     (case pop_shortest_paths population labels length_dict cost_func of
        Inl e \<Rightarrow> Some (Inl e)
      | Inr (prev, dists) \<Rightarrow>
          (case min_shortest_path prev dists labels n_lengths of
             None \<Rightarrow> None
           | Some (Inl e) \<Rightarrow> Some (Inl e)
           | Some (Inr min_path) \<Rightarrow>
               if \<exists>v \<in> set min_path. \<not> v < length population then Some (Inl IndexError)
               else
                 let min_pop = map (\<lambda>v. population ! v) min_path
                 in Some (assign_row n_lengths (consecutive_dist min_pop))))"

fun frames_loop ::
  "matrix series \<Rightarrow> nat list series \<Rightarrow> (real \<Rightarrow> real \<Rightarrow> real) \<Rightarrow> label_adj \<Rightarrow> nat \<Rightarrow> nat list \<Rightarrow>
     (error + real list list) option" where
  "frames_loop pop_series label_series cost_func length_dict n_lengths [] = Some (Inr [])"
| "frames_loop pop_series label_series cost_func length_dict n_lengths (f # fs) =
     (case map_of pop_series f of
        None \<Rightarrow> Some (Inl KeyError)
      | Some population \<Rightarrow>
          (case map_of label_series f of
             None \<Rightarrow> Some (Inl KeyError)
           | Some labels \<Rightarrow>
               (case frame_lengths cost_func length_dict n_lengths population labels of
                  None \<Rightarrow> None
                | Some (Inl e) \<Rightarrow> Some (Inl e)
                | Some (Inr row) \<Rightarrow>
                    (case frames_loop pop_series label_series cost_func length_dict n_lengths fs of
                       None \<Rightarrow> None
                     | Some (Inl e) \<Rightarrow> Some (Inl e)
                     | Some (Inr rows) \<Rightarrow> Some (Inr (row # rows))))))"

text \<open>\<^verbatim>\<open>np.median\<close> of a non-empty column: the middle of the sorted values, the mean of
  the two middle ones for an even count.\<close>

definition median :: "real list \<Rightarrow> real" where
  "median xs =
     (let s = sort xs; n = length s in
      if odd n then s ! (n div 2) else (s ! (n div 2 - 1) + s ! (n div 2)) / 2)"

text \<open>
  One pass of the \<^verbatim>\<open>while\<close> loop up to the new \<open>lengths\<close>. The rows of
  \<^verbatim>\<open>length_array\<close> are NaN until written: with fewer than \<open>n_frames\<close> frames, or with
  \<open>n_frames = 0\<close>, the median of every column is NaN, which the model reports as
  \<open>FloatNaN\<close>.
\<close>

definition iteration ::
  "matrix series \<Rightarrow> nat list series \<Rightarrow> (real \<Rightarrow> real \<Rightarrow> real) \<Rightarrow> nat \<Rightarrow> nat \<Rightarrow> real list \<Rightarrow>
     (error + real list) option" where
  "iteration pop_series label_series cost_func n_frames n_lengths lengths =
     (let length_dict = length_dict_of n_lengths lengths;
          frames = map fst pop_series
      in case frames_loop pop_series label_series cost_func length_dict n_lengths
                (take n_frames frames) of
           None \<Rightarrow> None
         | Some (Inl e) \<Rightarrow> Some (Inl e)
         | Some (Inr length_array) \<Rightarrow>
             if n_lengths = 0 then Some (Inr [])
             else if length length_array < n_frames \<or> n_frames = 0 then Some (Inl FloatNaN)
             else Some (Inr (map (\<lambda>j. median (map (\<lambda>row. row ! j) length_array))
                                  [0..<n_lengths])))"

text \<open>
  The test that ends the loop, \<^verbatim>\<open>np.all(abs(lengths - prev_lengths)) < eps\<close>:
  \<^verbatim>\<open>np.all\<close> of an array of floats is true when no entry is zero, and the boolean is
  compared with \<open>eps\<close> as the number 1 or 0.
\<close>

definition stop_test :: "real list \<Rightarrow> real list \<Rightarrow> real \<Rightarrow> bool" where
  "stop_test lengths prev_lengths eps =
     ((if \<forall>d \<in> set (map (\<lambda>(a, b). \<bar>a - b\<bar>) (zip lengths prev_lengths)). d \<noteq> 0
       then 1 else 0) < eps)"

text \<open>The \<^verbatim>\<open>while True\<close> loop; \<open>None\<close> stands for a loop that never ends.\<close>

partial_function (option) lengths_loop ::
  "matrix series \<Rightarrow> nat list series \<Rightarrow> (real \<Rightarrow> real \<Rightarrow> real) \<Rightarrow> nat \<Rightarrow> nat \<Rightarrow> real \<Rightarrow> real list \<Rightarrow>
     (error + real list) option" where
  "lengths_loop pop_series label_series cost_func n_frames n_lengths eps lengths =
     (case iteration pop_series label_series cost_func n_frames n_lengths lengths of
        None \<Rightarrow> None
      | Some (Inl e) \<Rightarrow> Some (Inl e)
      | Some (Inr new_lengths) \<Rightarrow>
          if stop_test new_lengths lengths eps then Some (Inr new_lengths)
          else lengths_loop pop_series label_series cost_func n_frames n_lengths eps new_lengths)"

declare lengths_loop.simps [code]

text \<open>
  \<^verbatim>\<open>label_series.iloc[0]\<close> raises IndexError on an empty series, and \<^verbatim>\<open>max\<close> of an
  empty label array raises ValueError.
\<close>

definition estimate_lengths ::
  "matrix series \<Rightarrow> nat list series \<Rightarrow> (real \<Rightarrow> real \<Rightarrow> real) \<Rightarrow> nat \<Rightarrow> real \<Rightarrow>
     (error + real list) option" where
  "estimate_lengths pop_series label_series cost_func n_frames eps =
     (case label_series of
        [] \<Rightarrow> Some (Inl IndexError)
      | first # _ \<Rightarrow>
          if snd first = [] then Some (Inl ValueError)
          else
            let n_lengths = Max (set (snd first))
            in lengths_loop pop_series label_series cost_func n_frames n_lengths eps
                 (replicate n_lengths 0))"

text \<open>
  The lengths held when pass number \<open>k\<close> of the loop begins, provided each of the
  \<open>k\<close> passes before it produced lengths and failed the stopping test.
\<close>

fun lengths_after ::
  "matrix series \<Rightarrow> nat list series \<Rightarrow> (real \<Rightarrow> real \<Rightarrow> real) \<Rightarrow> nat \<Rightarrow> nat \<Rightarrow> real \<Rightarrow> real list \<Rightarrow>
     nat \<Rightarrow> real list option" where
  "lengths_after ps ls cost nf nl eps lengths 0 = Some lengths"
| "lengths_after ps ls cost nf nl eps lengths (Suc k) =
     (case iteration ps ls cost nf nl lengths of
        Some (Inr new_lengths) \<Rightarrow>
          if stop_test new_lengths lengths eps then None
          else lengths_after ps ls cost nf nl eps new_lengths k
      | _ \<Rightarrow> None)"

text \<open>
  The stopping criterion in the words of the docstring and the specification: every
  length has changed by less than \<open>eps\<close>.
\<close>

definition all_changed_less :: "real list \<Rightarrow> real list \<Rightarrow> real \<Rightarrow> bool" where
  "all_changed_less lengths prev_lengths eps =
     (\<forall>d \<in> set (map (\<lambda>(a, b). \<bar>a - b\<bar>) (zip lengths prev_lengths)). d < eps)"

section \<open>Properties of filter_by_path\<close>


lemma same_shape_refl: "same_shape A A"
  by (simp add: same_shape_def)

lemma same_shape_zeros: "same_shape (zeros_like S) S"
  by (simp add: same_shape_def zeros_like_def comp_def)

lemma same_shape_length: "same_shape A B \<Longrightarrow> length A = length B"
  unfolding same_shape_def by (metis length_map)

lemma same_shape_row: "same_shape A B \<Longrightarrow> i < length B \<Longrightarrow> length (A ! i) = length (B ! i)"
  unfolding same_shape_def by (metis length_map nth_map)

lemma same_shape_update:
  "same_shape F S \<Longrightarrow> same_shape (F[a := (F ! a)[b := v]]) S"
  unfolding same_shape_def by (simp add: map_update) (metis list_update_id map_update)

lemma filter_step_Inr:
  assumes "filter_step S P C t F = Inr F'" and "same_shape F S"
  shows "step_ok S P C t \<and> same_shape F' S \<and>
         (\<forall>x y. x < length S \<longrightarrow> y < length (S ! x) \<longrightarrow>
            F' ! x ! y = (if step_hits P C t x y then S ! x ! y else F ! x ! y))"
  using assms
  apply (cases t)
  apply (auto simp: filter_step_def step_ok_def step_hits_def allowed_pair_def Let_def same_shape_update
      same_shape_length same_shape_row nth_list_update
      split: option.splits if_splits)
  done

lemma filter_step_ok:
  "step_ok S P C t \<Longrightarrow> \<exists>F'. filter_step S P C t F = Inr F'"
  by (cases t) (auto simp: filter_step_def step_ok_def Let_def split: option.splits)


lemma step_ok_shape: "same_shape S' S \<Longrightarrow> step_ok S' P C t = step_ok S P C t"
  by (cases t) (auto simp: step_ok_def same_shape_length same_shape_row split: option.splits)

lemma filter_loop_Inr:
  "filter_loop S P C ts F = Inr F' \<Longrightarrow> same_shape F S \<Longrightarrow>
     (\<forall>t\<in>set ts. step_ok S P C t) \<and> same_shape F' S \<and>
     (\<forall>x y. x < length S \<longrightarrow> y < length (S ! x) \<longrightarrow>
        F' ! x ! y = (if \<exists>t\<in>set ts. step_hits P C t x y then S ! x ! y else F ! x ! y))"
proof (induction ts arbitrary: F)
  case Nil
  then show ?case by simp
next
  case (Cons t ts)
  from Cons.prems(1) obtain G where G: "filter_step S P C t F = Inr G"
    and rest: "filter_loop S P C ts G = Inr F'"
    by (auto split: sum.splits)
  note st = filter_step_Inr [OF G Cons.prems(2)]
  note ih = Cons.IH [OF rest conjunct1 [OF conjunct2 [OF st]]]
  show ?case using st ih by auto
qed

lemma filter_loop_ok:
  "\<forall>t\<in>set ts. step_ok S P C t \<Longrightarrow> \<exists>F'. filter_loop S P C ts F = Inr F'"
proof (induction ts arbitrary: F)
  case Nil
  then show ?case by simp
next
  case (Cons t ts)
  then obtain G where "filter_step S P C t F = Inr G"
    using filter_step_ok [of S P C t F] by auto
  then show ?case using Cons by auto
qed

lemma set_loop_triples:
  "set (loop_triples n m) = {(i, j, k). i < n \<and> j < m \<and> k < m}"
  by (force simp: loop_triples_def)

lemma hits_loop_triples:
  "(\<exists>t\<in>set (loop_triples (length P) (n_path_nodes P)). step_hits P C t x y) = on_common_path P C x y"
  by (auto simp: set_loop_triples step_hits_def on_common_path_def)

lemma filter_by_path_Inr:
  assumes "filter_by_path S P C = Inr S'"
  shows "same_shape S' S"
    and "x < length S \<Longrightarrow> y < length (S ! x) \<Longrightarrow>
           S' ! x ! y = (if on_common_path P C x y then S ! x ! y else 0)"
    and "\<forall>t\<in>set (loop_triples (length P) (n_path_nodes P)). step_ok S P C t"
proof -
  note r = filter_loop_Inr [OF assms [unfolded filter_by_path_def] same_shape_zeros]
  show "same_shape S' S" using r by simp
  show "\<forall>t\<in>set (loop_triples (length P) (n_path_nodes P)). step_ok S P C t" using r by simp
  assume xy: "x < length S" "y < length (S ! x)"
  have "zeros_like S ! x ! y = 0" using xy by (simp add: zeros_like_def)
  with r xy show "S' ! x ! y = (if on_common_path P C x y then S ! x ! y else 0)"
    by (simp add: hits_loop_triples)
qed

lemma matrix_eqI:
  assumes "same_shape A B" and "\<And>x y. x < length B \<Longrightarrow> y < length (B ! x) \<Longrightarrow> A ! x ! y = B ! x ! y"
  shows "A = B"
proof (rule nth_equalityI)
  show "length A = length B" using assms(1) by (rule same_shape_length)
  fix i assume "i < length A"
  then have i: "i < length B" using assms(1) by (simp add: same_shape_length)
  show "A ! i = B ! i"
    by (rule nth_equalityI) (use i assms in \<open>auto simp: same_shape_row\<close>)
qed

lemma filter_by_path_again:
  assumes "filter_by_path S P C = Inr S'"
  shows "filter_by_path S' P C = Inr S'"
proof -
  note r = filter_by_path_Inr [OF assms]
  have "\<forall>t\<in>set (loop_triples (length P) (n_path_nodes P)). step_ok S' P C t"
    using r(3) step_ok_shape [OF r(1)] by simp
  then obtain S'' where S'': "filter_by_path S' P C = Inr S''"
    unfolding filter_by_path_def using filter_loop_ok by blast
  note r' = filter_by_path_Inr [OF S'']
  have "S'' = S'"
  proof (rule matrix_eqI)
    show "same_shape S'' S'" by (rule r'(1))
    fix x y assume xy: "x < length S'" "y < length (S' ! x)"
    then have xy': "x < length S" "y < length (S ! x)"
      using r(1) by (simp_all add: same_shape_length same_shape_row)
    show "S'' ! x ! y = S' ! x ! y"
      using r'(2) [OF xy] r(2) [OF xy'] by simp
  qed
  with S'' show ?thesis by simp
qed


lemma filter_inputs_step_ok:
  assumes "square n S" and "paths_below n P" and "labels_are_keys P C"
  shows "\<forall>t\<in>set (loop_triples (length P) (n_path_nodes P)). step_ok S P C t"
proof
  fix t assume "t \<in> set (loop_triples (length P) (n_path_nodes P))"
  then obtain i j k where t: "t = (i, j, k)" and i: "i < length P"
    and j: "j < n_path_nodes P" and k: "k < n_path_nodes P"
    by (auto simp: set_loop_triples)
  from i have row: "P ! i \<in> set P" and ne: "P \<noteq> []" by auto
  from row assms(2) have len: "length (P ! i) = n_path_nodes P"
    and below: "\<forall>v\<in>set (P ! i). v < n"
    by (auto simp: paths_below_def)
  from ne j assms(3) obtain m where m: "C j = Some m"
    by (auto simp: labels_are_keys_def)
  have a: "P ! i ! j < n" and b: "P ! i ! k < n"
    using below len j k by auto
  have "length (S ! (P ! i ! j)) = n" and "length S = n"
    using assms(1) a by (auto simp: square_def)
  with t i j k len m a b show "step_ok S P C t"
    by (simp add: step_ok_def split: option.splits)
qed

text \<open>
  Claim C3. On an \<open>n \<times> n\<close> score matrix, a path matrix of nodes below \<open>n\<close> and part
  connections that have every path column as a key, \<open>filter_by_path\<close> returns; and
  whenever it returns, the output has the shape of the input, entry \<open>(i, j)\<close> is the
  input's entry when some path row \<open>r\<close> and allowed label pair \<open>(a, b)\<close> have
  \<open>PATHS[r, a] = i\<close> and \<open>PATHS[r, b] = j\<close>, and is \<open>0\<close> otherwise.
\<close>

theorem filter_by_path_entries:
  "(square n S \<and> paths_below n P \<and> labels_are_keys P C \<longrightarrow>
      (\<exists>S'. filter_by_path S P C = Inr S')) \<and>
   (\<forall>S'. filter_by_path S P C = Inr S' \<longrightarrow>
      same_shape S' S \<and>
      (\<forall>i < length S. \<forall>j < length (S ! i).
         S' ! i ! j = (if on_common_path P C i j then S ! i ! j else 0)))"
proof (intro conjI impI allI)
  assume "square n S \<and> paths_below n P \<and> labels_are_keys P C"
  then have "\<forall>t\<in>set (loop_triples (length P) (n_path_nodes P)). step_ok S P C t"
    using filter_inputs_step_ok by blast
  then show "\<exists>S'. filter_by_path S P C = Inr S'"
    unfolding filter_by_path_def by (rule filter_loop_ok)
next
  fix S' assume "filter_by_path S P C = Inr S'"
  then show "same_shape S' S" by (rule filter_by_path_Inr(1))
next
  fix S' i j
  assume "filter_by_path S P C = Inr S'" and "i < length S" and "j < length (S ! i)"
  then show "S' ! i ! j = (if on_common_path P C i j then S ! i ! j else 0)"
    by (rule filter_by_path_Inr(2))
qed

theorem filter_by_path_entries_witness:
  "square 3 [[1, 2, 3], [4, 5, 6], [7, 8, 9 :: real]] \<and>
   paths_below 3 [[0, 1], [0, 2]] \<and>
   labels_are_keys [[0, 1], [0, 2]] [0 \<mapsto> [1 \<mapsto> 10], 1 \<mapsto> Map.empty] \<and>
   filter_by_path [[1, 2, 3], [4, 5, 6], [7, 8, 9]] [[0, 1], [0, 2]]
       [0 \<mapsto> [1 \<mapsto> 10], 1 \<mapsto> Map.empty]
     = Inr [[0, 2, 3], [0, 0, 0], [0, 0, 0]] \<and>
   on_common_path [[0, 1], [0, 2]] [0 \<mapsto> [1 \<mapsto> 10], 1 \<mapsto> Map.empty] 0 2 \<and>
   \<not> on_common_path [[0, 1], [0, 2]] [0 \<mapsto> [1 \<mapsto> 10], 1 \<mapsto> Map.empty] 1 2 \<and>
   same_shape [[0, 2, 3], [0, 0, 0], [0, 0, 0]] [[1, 2, 3], [4, 5, 6], [7, 8, 9]]"
proof -
  let ?S = "[[1, 2, 3], [4, 5, 6], [7, 8, 9 :: real]]"
  let ?P = "[[0, 1], [0, 2 :: nat]]"
  let ?C = "[0 \<mapsto> [1 \<mapsto> 10], 1 \<mapsto> Map.empty] :: label_adj"
  have sq: "square 3 ?S" by (simp add: square_def)
  have pb: "paths_below 3 ?P" by (simp add: paths_below_def n_path_nodes_def)
  have lk: "labels_are_keys ?P ?C"
    by (simp add: labels_are_keys_def n_path_nodes_def lessThan_Suc numeral_2_eq_2)
  have run: "filter_by_path ?S ?P ?C = Inr [[0, 2, 3], [0, 0, 0], [0, 0, 0]]"
    by (simp add: filter_by_path_def loop_triples_def n_path_nodes_def zeros_like_def
        filter_step_def upt_rec numeral_2_eq_2)
  have c1: "on_common_path ?P ?C 0 2"
    by (simp add: on_common_path_def n_path_nodes_def allowed_pair_def lessThan_Suc numeral_2_eq_2)
  have c2: "\<not> on_common_path ?P ?C 1 2"
    by (simp add: on_common_path_def n_path_nodes_def allowed_pair_def lessThan_Suc numeral_2_eq_2)
  from filter_by_path_entries [where n = 3 and S = ?S and P = ?P and C = ?C] sq pb lk run c1 c2
  show ?thesis by simp
qed

text \<open>
  Claim C7. \<open>filter_by_path\<close> is idempotent: filtering the output again, with the
  same path matrix and part connections, gives the output again; and an input on
  which the first call raises gives that exception either way.
\<close>

theorem filter_by_path_idempotent:
  "(case filter_by_path S P C of
      Inl e \<Rightarrow> Inl e
    | Inr S' \<Rightarrow> filter_by_path S' P C) = filter_by_path S P C"
  by (cases "filter_by_path S P C") (simp_all add: filter_by_path_again)

theorem filter_by_path_idempotent_witness:
  "filter_by_path [[0, 2, 3], [0, 0, 0], [0, 0, 0]] [[0, 1], [0, 2]]
       [0 \<mapsto> [1 \<mapsto> 10], 1 \<mapsto> Map.empty]
     = filter_by_path [[1, 2, 3], [4, 5, 6], [7, 8, 9]] [[0, 1], [0, 2]]
         [0 \<mapsto> [1 \<mapsto> 10], 1 \<mapsto> Map.empty]"
proof -
  let ?S = "[[1, 2, 3], [4, 5, 6], [7, 8, 9 :: real]]"
  let ?P = "[[0, 1], [0, 2 :: nat]]"
  let ?C = "[0 \<mapsto> [1 \<mapsto> 10], 1 \<mapsto> Map.empty] :: label_adj"
  have run: "filter_by_path ?S ?P ?C = Inr [[0, 2, 3], [0, 0, 0], [0, 0, 0]]"
    by (simp add: filter_by_path_def loop_triples_def n_path_nodes_def zeros_like_def
        filter_step_def upt_rec numeral_2_eq_2)
  from filter_by_path_idempotent [where S = ?S and P = ?P and C = ?C] run show ?thesis by simp
qed

section \<open>Properties of foot_to_pop\<close>


lemma argmin_less: "xs \<noteq> [] \<Longrightarrow> argmin xs < length xs"
  by (induction xs rule: argmin.induct) (auto simp: Let_def)

lemma argmin_le: "k < length xs \<Longrightarrow> xs ! argmin xs \<le> xs ! k"
proof (induction xs arbitrary: k rule: argmin.induct)
  case 1
  then show ?case by simp
next
  case (2 x)
  then show ?case by simp
next
  case (3 x y ys)
  show ?case
  proof (cases k)
    case 0
    then show ?thesis by (auto simp: Let_def)
  next
    case (Suc k')
    with 3 have "(y # ys) ! argmin (y # ys) \<le> (y # ys) ! k'" by simp
    with Suc show ?thesis by (auto simp: Let_def)
  qed
qed

lemma argmin_first: "k < argmin xs \<Longrightarrow> xs ! argmin xs < xs ! k"
proof (induction xs arbitrary: k rule: argmin.induct)
  case 1
  then show ?case by simp
next
  case (2 x)
  then show ?case by simp
next
  case (3 x y ys)
  show ?case
  proof (cases k)
    case 0
    with 3 show ?thesis by (auto simp: Let_def split: if_splits)
  next
    case (Suc k')
    with 3 show ?thesis by (auto simp: Let_def split: if_splits)
  qed
qed

lemma foot_to_pop_Inr:
  assumes "foot_to_pop h pa PM PD p q = Inr (h', a1, a2)" and "pa < length h"
  shows "a1 = length h" "a2 = Suc (length h)" "length h' = Suc (Suc (length h))"
    "\<forall>a < length h. h' ! a = h ! a"
    "p < length PM" "q < length PM" "PD \<noteq> []" "argmin PD < length PM" "PM ! argmin PD \<noteq> []"
    "PM ! p \<noteq> []" "PM ! q \<noteq> []"
    "h' ! a1 = (map (\<lambda>v. h ! pa ! v) (PM ! p))[0 := h ! pa ! (PM ! argmin PD ! 0)]"
    "h' ! a2 = (map (\<lambda>v. h ! pa ! v) (PM ! q))[0 := h ! pa ! (PM ! argmin PD ! 0)]"
    "\<forall>v \<in> set (PM ! p). v < length (h ! pa)" "\<forall>v \<in> set (PM ! q). v < length (h ! pa)"
    "PM ! argmin PD ! 0 < length (h ! pa)"
  using assms
  by (auto simp: foot_to_pop_def alloc_def Let_def nth_append split: if_splits)


text \<open>
  Claim C5. Whenever \<open>foot_to_pop\<close> returns, row 0 of both returned skeletons is the
  population point at the head of the path of minimum total distance over all entries
  of the path-distance vector (the first such path), and every other row is the
  population point at the corresponding node of the chosen path. On a path matrix of
  nodes of the population with a path distance for each row, it returns.
\<close>

theorem foot_to_pop_head_and_rows:
  assumes "pa < length h"
  shows "(paths_below (length (h ! pa)) PM \<and> 0 < n_path_nodes PM \<and> length PD = length PM \<and>
          p < length PM \<and> q < length PM \<longrightarrow>
            (\<exists>res. foot_to_pop h pa PM PD p q = Inr res)) \<and>
         (\<forall>h' a1 a2. foot_to_pop h pa PM PD p q = Inr (h', a1, a2) \<longrightarrow>
            (let population = h ! pa; pop_1 = h' ! a1; pop_2 = h' ! a2; m = argmin PD in
               m < length PD \<and> m < length PM \<and> (\<forall>k < length PD. PD ! m \<le> PD ! k) \<and>
               length pop_1 = length (PM ! p) \<and> length pop_2 = length (PM ! q) \<and>
               pop_1 ! 0 = population ! (PM ! m ! 0) \<and>
               pop_2 ! 0 = population ! (PM ! m ! 0) \<and>
               (\<forall>c. 0 < c \<and> c < length (PM ! p) \<longrightarrow> pop_1 ! c = population ! (PM ! p ! c)) \<and>
               (\<forall>c. 0 < c \<and> c < length (PM ! q) \<longrightarrow> pop_2 ! c = population ! (PM ! q ! c))))"
proof (intro conjI impI allI)
  assume wf: "paths_below (length (h ! pa)) PM \<and> 0 < n_path_nodes PM \<and> length PD = length PM \<and>
          p < length PM \<and> q < length PM"
  then have ne: "PD \<noteq> []" by auto
  have am: "argmin PD < length PM" using argmin_less [OF ne] wf by simp
  have rows: "PM ! k \<noteq> [] \<and> (\<forall>v \<in> set (PM ! k). v < length (h ! pa))" if "k < length PM" for k
  proof -
    from that have "PM ! k \<in> set PM" by simp
    with wf show ?thesis by (auto simp: paths_below_def)
  qed
  have hd: "PM ! argmin PD ! 0 < length (h ! pa)"
    using rows [OF am] by (cases "PM ! argmin PD") auto
  show "\<exists>res. foot_to_pop h pa PM PD p q = Inr res"
    using wf ne am hd rows [of p] rows [of q] rows [OF am] assms
    by (simp add: foot_to_pop_def alloc_def Let_def nth_append)
next
  fix h' a1 a2
  assume run: "foot_to_pop h pa PM PD p q = Inr (h', a1, a2)"
  note r = foot_to_pop_Inr [OF run assms]
  have m: "argmin PD < length PD" using r(7) by (rule argmin_less)
  have le: "\<forall>k < length PD. PD ! argmin PD \<le> PD ! k" by (simp add: argmin_le)
  have p0: "0 < length (PM ! p)" and q0: "0 < length (PM ! q)" using r(10,11) by auto
  show "let population = h ! pa; pop_1 = h' ! a1; pop_2 = h' ! a2; m = argmin PD in
               m < length PD \<and> m < length PM \<and> (\<forall>k < length PD. PD ! m \<le> PD ! k) \<and>
               length pop_1 = length (PM ! p) \<and> length pop_2 = length (PM ! q) \<and>
               pop_1 ! 0 = population ! (PM ! m ! 0) \<and>
               pop_2 ! 0 = population ! (PM ! m ! 0) \<and>
               (\<forall>c. 0 < c \<and> c < length (PM ! p) \<longrightarrow> pop_1 ! c = population ! (PM ! p ! c)) \<and>
               (\<forall>c. 0 < c \<and> c < length (PM ! q) \<longrightarrow> pop_2 ! c = population ! (PM ! q ! c))"
    unfolding Let_def r(12,13) using m le r(8) p0 q0 by simp
qed

theorem foot_to_pop_head_and_rows_witness:
  "0 < length [[[0, 0, 0], [1, 0, 0], [0, 0, 10], [0, 0, 12 :: real]]] \<and>
   paths_below (length ([[[0, 0, 0], [1, 0, 0], [0, 0, 10], [0, 0, 12 :: real]]] ! 0))
     [[0, 2], [1, 3]] \<and>
   foot_to_pop [[[0, 0, 0], [1, 0, 0], [0, 0, 10], [0, 0, 12]]] 0 [[0, 2], [1, 3]] [7, 5 :: real] 0 1
     = Inr ([[[0, 0, 0], [1, 0, 0], [0, 0, 10], [0, 0, 12]],
             [[1, 0, 0], [0, 0, 10]], [[1, 0, 0], [0, 0, 12]]], 1, 2) \<and>
   argmin [7, 5 :: real] = 1 \<and>
   [[1, 0, 0], [0, 0, 10 :: real]] ! 0
     = [[0, 0, 0], [1, 0, 0], [0, 0, 10], [0, 0, 12]] ! ([[0, 2], [1, 3]] ! 1 ! 0)"
proof -
  let ?h = "[[[0, 0, 0], [1, 0, 0], [0, 0, 10], [0, 0, 12 :: real]]]"
  let ?PM = "[[0, 2], [1, 3 :: nat]]"
  have a: "0 < length ?h" by simp
  have pb: "paths_below (length (?h ! 0)) ?PM" by (simp add: paths_below_def n_path_nodes_def)
  have run: "foot_to_pop ?h 0 ?PM [7, 5 :: real] 0 1
     = Inr ([[[0, 0, 0], [1, 0, 0], [0, 0, 10], [0, 0, 12]],
             [[1, 0, 0], [0, 0, 10]], [[1, 0, 0], [0, 0, 12]]], 1, 2)"
    by (simp add: foot_to_pop_def alloc_def Let_def)
  from foot_to_pop_head_and_rows [OF a, where PM = ?PM and PD = "[7, 5 :: real]" and p = 0 and q = 1] run pb
  show ?thesis by (simp add: Let_def)
qed

section \<open>Properties of select_best_feet\<close>



lemma map_err_Inr: "(\<And>x. x \<in> set xs \<Longrightarrow> f x = Inr (g x)) \<Longrightarrow> map_err f xs = Inr (map g xs)"
  by (induction xs) auto

lemma np_or_same: "length xs = length ys \<Longrightarrow> np_or xs ys = Inr (map (\<lambda>(x, y). x \<or> y) (zip xs ys))"
  by (simp add: np_or_def)

lemma spheres_loop_Inr:
  assumes "\<forall>i \<in> set pts. i < length D \<and> length (D ! i) = n" and "length acc = n"
  shows "spheres_loop D r pts acc = Inr (map (\<lambda>k. acc ! k \<or> in_region D pts r k) [0..<n])"
  using assms
proof (induction pts arbitrary: acc)
  case Nil
  then show ?case by (auto simp: in_region_def intro: nth_equalityI)
next
  case (Cons i pts)
  let ?acc' = "map (\<lambda>(x, y). x \<or> y) (zip acc (map (\<lambda>d. d \<le> r) (D ! i)))"
  have len: "length acc = length (map (\<lambda>d. d \<le> r) (D ! i))" using Cons.prems by simp
  have l': "length ?acc' = n" using Cons.prems by simp
  have ih: "spheres_loop D r pts ?acc' = Inr (map (\<lambda>k. ?acc' ! k \<or> in_region D pts r k) [0..<n])"
    using Cons.IH [OF _ l'] Cons.prems(1) by simp
  have "spheres_loop D r (i # pts) acc = spheres_loop D r pts ?acc'"
    using Cons.prems np_or_same [OF len] by (simp add: Let_def)
  also have "\<dots> = Inr (map (\<lambda>k. ?acc' ! k \<or> in_region D pts r k) [0..<n])" by (rule ih)
  also have "map (\<lambda>k. ?acc' ! k \<or> in_region D pts r k) [0..<n]
           = map (\<lambda>k. acc ! k \<or> in_region D (i # pts) r k) [0..<n]"
    using Cons.prems by (auto simp: in_region_def)
  finally show ?case .
qed

lemma inside_spheres_Inr:
  assumes "square n D" and "\<forall>v \<in> set path. v < n"
  shows "inside_spheres D path r = Inr (map (in_region D path r) [0..<n])"
proof -
  have "\<forall>i \<in> set path. i < length D \<and> length (D ! i) = n"
    using assms by (auto simp: square_def)
  moreover have "length (replicate (length D) False) = n" using assms by (simp add: square_def)
  ultimately have "inside_spheres D path r
      = Inr (map (\<lambda>k. replicate (length D) False ! k \<or> in_region D path r k) [0..<n])"
    unfolding inside_spheres_def by (rule spheres_loop_Inr)
  moreover have "map (\<lambda>k. replicate (length D) False ! k \<or> in_region D path r k) [0..<n]
      = map (in_region D path r) [0..<n]"
    using assms by (simp add: square_def)
  ultimately show ?thesis by simp
qed

lemma inside_radii_Inr:
  assumes "square n D" and "paths_below n P"
  shows "inside_radii D P radii
       = Inr (map (\<lambda>path. map (\<lambda>r. map (in_region D path r) [0..<n]) radii) P)"
  unfolding inside_radii_def
proof (rule map_err_Inr)
  fix path assume "path \<in> set P"
  then have "\<forall>v \<in> set path. v < n" using assms(2) by (auto simp: paths_below_def)
  then show "map_err (inside_spheres D path) radii = Inr (map (\<lambda>r. map (in_region D path r) [0..<n]) radii)"
    by (intro map_err_Inr inside_spheres_Inr [OF assms(1)])
qed

lemma zip_upt_nth: "zip xs [0..<length xs] = map (\<lambda>i. (xs ! i, i)) [0..<length xs]"
  by (rule nth_equalityI) auto

lemma mask_select_upt:
  assumes "length xs = n"
  shows "mask_select (map f [0..<n]) xs = map (\<lambda>i. xs ! i) (filter f [0..<n])"
proof -
  have "zip xs (map f [0..<n]) = map (\<lambda>i. (xs ! i, f i)) [0..<n]"
    using assms zip_upt_nth [of xs] by (simp add: zip_map2)
  then show ?thesis by (simp add: mask_select_def filter_map comp_def)
qed

lemma masked_sum_Inr:
  assumes "square n S"
  shows "masked_sum np_sum S (map f [0..<n])
       = Inr (np_sum (map (\<lambda>i. map (\<lambda>j. S ! i ! j) (filter f [0..<n])) (filter f [0..<n])))"
proof -
  let ?bs = "map f [0..<n]" and ?idx = "filter f [0..<n]"
  have n: "length S = n" and rows: "\<forall>row \<in> set S. length row = n"
    using assms by (auto simp: square_def)
  have temp: "mask_select ?bs S = map (\<lambda>i. S ! i) ?idx"
    using n by (rule mask_select_upt)
  have "map (mask_select ?bs) (mask_select ?bs S) = map (\<lambda>i. mask_select ?bs (S ! i)) ?idx"
    by (simp add: temp comp_def)
  also have "\<dots> = map (\<lambda>i. map (\<lambda>j. S ! i ! j) ?idx) ?idx"
  proof (rule map_cong [OF refl])
    fix i assume "i \<in> set ?idx"
    then have "i < n" by simp
    then have "length (S ! i) = n" using n rows by auto
    then show "mask_select ?bs (S ! i) = map (\<lambda>j. S ! i ! j) ?idx" by (rule mask_select_upt)
  qed
  finally show ?thesis using n rows by (simp add: masked_sum_def Let_def)
qed

lemma combo_score_Inr:
  assumes "square n D" and "square n S" and "paths_below n P"
    and "fst pq < length P" and "snd pq < length P" and "i < length radii"
  shows "combo_score np_sum S (map (\<lambda>path. map (\<lambda>r. map (in_region D path r) [0..<n]) radii) P) i pq
       = Inr (pair_score np_sum D S P (radii ! i) pq)"
proof -
  let ?r = "radii ! i"
  let ?b1 = "map (in_region D (P ! fst pq) ?r) [0..<n]"
  let ?b2 = "map (in_region D (P ! snd pq) ?r) [0..<n]"
  let ?inside = "\<lambda>k. in_region D (P ! fst pq) ?r k \<or> in_region D (P ! snd pq) ?r k"
  have or: "np_or ?b1 ?b2 = Inr (map ?inside [0..<n])"
    by (simp add: np_or_def zip_map_map) (simp add: zip_same_conv_map)
  have n: "length D = n" using assms(1) by (simp add: square_def)
  have "masked_sum np_sum S (map ?inside [0..<n])
      = Inr (np_sum (map (\<lambda>i. map (\<lambda>j. S ! i ! j) (filter ?inside [0..<n])) (filter ?inside [0..<n])))"
    by (rule masked_sum_Inr [OF assms(2)])
  also have "\<dots> = Inr (pair_score np_sum D S P ?r pq)"
    by (simp add: pair_score_def region_points_def n)
  finally show ?thesis using assms(4-6) or by (simp add: combo_score_def Let_def)
qed

lemma set_combinations2: "set (combinations2 n) = {pq. fst pq < snd pq \<and> snd pq < n}"
  by (force simp: combinations2_def)

lemma sorted_wrt_concat_map:
  assumes "\<And>x. x \<in> set xs \<Longrightarrow> sorted_wrt R (f x)"
    and "sorted_wrt (\<lambda>x y. \<forall>a \<in> set (f x). \<forall>b \<in> set (f y). R a b) xs"
  shows "sorted_wrt R (concat (map f xs))"
  using assms by (induction xs) (auto simp: sorted_wrt_append)

lemma sorted_combinations2: "sorted_wrt lex_less (combinations2 n)"
  unfolding combinations2_def
proof (rule sorted_wrt_concat_map)
  fix p
  show "sorted_wrt lex_less (map (Pair p) [Suc p..<n])"
    by (simp add: sorted_wrt_map lex_less_def)
  show "sorted_wrt (\<lambda>x y. \<forall>a\<in>set (map (Pair x) [Suc x..<n]). \<forall>b\<in>set (map (Pair y) [Suc y..<n]). lex_less a b) [0..<n]"
    by (auto simp: sorted_wrt_iff_nth_less lex_less_def)
qed

lemma combinations2_nth_less:
  "i < j \<Longrightarrow> j < length (combinations2 n) \<Longrightarrow> lex_less (combinations2 n ! i) (combinations2 n ! j)"
  using sorted_combinations2 [of n] by (simp add: sorted_wrt_iff_nth_less)

lemma combinations2_nonempty: "2 \<le> n \<Longrightarrow> combinations2 n \<noteq> []"
proof -
  assume "2 \<le> n"
  then have "(0, 1) \<in> set (combinations2 n)" by (simp add: set_combinations2)
  then show ?thesis by auto
qed

lemma argmax_less: "xs \<noteq> [] \<Longrightarrow> argmax xs < length xs"
  by (induction xs rule: argmax.induct) (auto simp: Let_def)

lemma argmax_ge: "k < length xs \<Longrightarrow> xs ! k \<le> xs ! argmax xs"
proof (induction xs arbitrary: k rule: argmax.induct)
  case 1
  then show ?case by simp
next
  case (2 x)
  then show ?case by simp
next
  case (3 x y ys)
  show ?case
  proof (cases k)
    case 0
    then show ?thesis by (auto simp: Let_def)
  next
    case (Suc k')
    with 3 have "(y # ys) ! k' \<le> (y # ys) ! argmax (y # ys)" by simp
    with Suc show ?thesis by (auto simp: Let_def)
  qed
qed

lemma argmax_first: "k < argmax xs \<Longrightarrow> xs ! k < xs ! argmax xs"
proof (induction xs arbitrary: k rule: argmax.induct)
  case 1
  then show ?case by simp
next
  case (2 x)
  then show ?case by simp
next
  case (3 x y ys)
  show ?case
  proof (cases k)
    case 0
    with 3 show ?thesis by (auto simp: Let_def split: if_splits)
  next
    case (Suc k')
    with 3 show ?thesis by (auto simp: Let_def split: if_splits)
  qed
qed

lemma radii_loop_Inr:
  assumes "\<And>i c. i \<in> set is \<Longrightarrow> c \<in> set combos \<Longrightarrow> combo_score np_sum S ins i c = Inr (sc i c)"
    and "combos \<noteq> []" and "length votes = length combos"
  shows "radii_loop np_sum S ins combos is votes
       = Inr (map (\<lambda>(v, c). v + length (filter (\<lambda>i. \<forall>c' \<in> set combos. sc i c' \<le> sc i c) is))
                  (zip votes combos))"
  using assms
proof (induction "is" arbitrary: votes)
  case Nil
  then show ?case by (auto intro: nth_equalityI)
next
  case (Cons i "is")
  let ?scores = "map (sc i) combos"
  let ?wins = "\<lambda>c. \<forall>c' \<in> set combos. sc i c' \<le> sc i c"
  let ?votes' = "map (\<lambda>(v, w). v + (if w then 1 else 0)) (zip votes (map (\<lambda>s. s = Max (set ?scores)) ?scores))"
  have sc: "map_err (combo_score np_sum S ins i) combos = Inr ?scores"
    by (rule map_err_Inr) (simp add: Cons.prems(1))
  have ne: "?scores \<noteq> []" using Cons.prems(2) by simp
  have win: "(sc i c = Max (sc i ` set combos)) = ?wins c" if "c \<in> set combos" for c
  proof -
    have fin: "finite (sc i ` set combos)" and ne': "sc i ` set combos \<noteq> {}"
      using Cons.prems(2) by auto
    have "(Max (sc i ` set combos) = sc i c) = (\<forall>s \<in> sc i ` set combos. s \<le> sc i c)"
      using that Max_eq_iff [OF fin ne', of "sc i c"] by auto
    then show ?thesis by auto
  qed
  have v': "?votes' = map (\<lambda>(v, c). v + (if ?wins c then 1 else 0)) (zip votes combos)"
    using Cons.prems(3)
    by (auto intro!: nth_equalityI simp: win)
  have l': "length ?votes' = length combos" using Cons.prems(3) by simp
  have ih: "radii_loop np_sum S ins combos is ?votes'
       = Inr (map (\<lambda>(v, c). v + length (filter (\<lambda>i. \<forall>c' \<in> set combos. sc i c' \<le> sc i c) is))
                  (zip ?votes' combos))"
    by (rule Cons.IH [OF _ Cons.prems(2) l']) (simp add: Cons.prems(1))
  have "radii_loop np_sum S ins combos (i # is) votes = radii_loop np_sum S ins combos is ?votes'"
    using sc ne by (simp add: Let_def)
  also note ih
  also have "map (\<lambda>(v, c). v + length (filter (\<lambda>i. \<forall>c' \<in> set combos. sc i c' \<le> sc i c) is))
                  (zip ?votes' combos)
        = map (\<lambda>(v, c). v + length (filter (\<lambda>i. \<forall>c' \<in> set combos. sc i c' \<le> sc i c) (i # is)))
                  (zip votes combos)"
    unfolding v' using Cons.prems(3)
    by (auto intro!: nth_equalityI)
  finally show ?case .
qed



lemma length_filter_nth:
  "length (filter (\<lambda>i. Q (xs ! i)) [0..<length xs]) = length (filter Q xs)"
proof -
  have "filter Q (map ((!) xs) [0..<length xs]) = map ((!) xs) (filter (Q \<circ> (!) xs) [0..<length xs])"
    by (rule filter_map)
  then have "length (filter Q xs) = length (filter (Q \<circ> (!) xs) [0..<length xs])"
    by (simp add: map_nth)
  then show ?thesis by (simp add: comp_def)
qed

lemma all_pairs_combinations2:
  "(\<forall>c \<in> set (combinations2 n). Q c) = (\<forall>q \<in> {..<n}. \<forall>p \<in> {..<q}. Q (p, q))"
  by (auto simp: set_combinations2)

lemma select_best_feet_result:
  assumes D: "square n D" and S: "square n S" and P: "paths_below n P" and two: "2 \<le> length P"
  shows "select_best_feet np_sum D S P radii
       = Inr (combinations2 (length P) !
               argmax (map (vote_count np_sum D S P radii) (combinations2 (length P))))"
proof -
  let ?combos = "combinations2 (length P)"
  let ?ins = "map (\<lambda>path. map (\<lambda>r. map (in_region D path r) [0..<n]) radii) P"
  let ?sc = "\<lambda>i c. pair_score np_sum D S P (radii ! i) c"
  have ne: "?combos \<noteq> []" using two by (rule combinations2_nonempty)
  have ir: "inside_radii D P radii = Inr ?ins" by (rule inside_radii_Inr [OF D P])
  have cs: "combo_score np_sum S ?ins i c = Inr (?sc i c)"
    if "i \<in> set [0..<length radii]" and "c \<in> set ?combos" for i c
    using that by (intro combo_score_Inr [OF D S P]) (auto simp: set_combinations2)
  have rl: "radii_loop np_sum S ?ins ?combos [0..<length radii] (replicate (length ?combos) 0)
      = Inr (map (\<lambda>(v, c). v + length (filter (\<lambda>i. \<forall>c' \<in> set ?combos. ?sc i c' \<le> ?sc i c)
                                        [0..<length radii]))
                 (zip (replicate (length ?combos) 0) ?combos))"
    by (rule radii_loop_Inr [OF cs ne]) simp_all
  have wins: "(\<forall>c' \<in> set ?combos. pair_score np_sum D S P r c' \<le> pair_score np_sum D S P r c)
      = wins_radius np_sum D S P r c" for r c
    unfolding wins_radius_def by (rule all_pairs_combinations2)
  have votes: "map (\<lambda>(v, c). v + length (filter (\<lambda>i. \<forall>c' \<in> set ?combos. ?sc i c' \<le> ?sc i c)
                                        [0..<length radii]))
                 (zip (replicate (length ?combos) 0) ?combos)
      = map (vote_count np_sum D S P radii) ?combos"
    by (rule nth_equalityI)
      (simp_all add: vote_count_def wins
        length_filter_nth [where Q = "\<lambda>r. wins_radius np_sum D S P r c" for c])
  show ?thesis
    using ir rl ne unfolding votes select_best_feet_def by (simp add: Let_def)
qed

text \<open>
  Claim C2. On an \<open>n \<times> n\<close> distance matrix and score matrix and a path matrix of
  at least two rows, \<open>select_best_feet\<close> returns a pair \<open>(p, q)\<close> of path rows with
  \<open>p < q\<close>; every pair whose summed score over the union of the two sphere regions is
  maximal among all pairs at a radius has one vote for that radius; the returned pair has
  the highest vote count over all radii, and among the pairs with that vote count it is
  the lexicographically smallest. The sums are those of \<open>np_sum\<close>, whatever it returns.
\<close>

theorem select_best_feet_votes:
  assumes "square n D" and "square n S" and "paths_below n P" and "2 \<le> length P"
  shows "\<exists>pq. select_best_feet np_sum D S P radii = Inr pq \<and> is_pair P pq \<and>
           (\<forall>pq'. is_pair P pq' \<longrightarrow>
              vote_count np_sum D S P radii pq' \<le> vote_count np_sum D S P radii pq \<and>
              (vote_count np_sum D S P radii pq' = vote_count np_sum D S P radii pq \<longrightarrow>
                 lex_le pq pq'))"
proof -
  let ?combos = "combinations2 (length P)"
  let ?votes = "map (vote_count np_sum D S P radii) ?combos"
  let ?am = "argmax ?votes"
  have ne: "?combos \<noteq> []" using assms(4) by (rule combinations2_nonempty)
  then have am: "?am < length ?combos" using argmax_less [of ?votes] by simp
  have res: "select_best_feet np_sum D S P radii = Inr (?combos ! ?am)"
    by (rule select_best_feet_result [OF assms])
  have "?combos ! ?am \<in> set ?combos" using am by simp
  then have pair: "is_pair P (?combos ! ?am)" by (simp add: set_combinations2 is_pair_def)
  have best: "vote_count np_sum D S P radii pq' \<le> vote_count np_sum D S P radii (?combos ! ?am) \<and>
        (vote_count np_sum D S P radii pq' = vote_count np_sum D S P radii (?combos ! ?am) \<longrightarrow>
           lex_le (?combos ! ?am) pq')"
    if "is_pair P pq'" for pq'
  proof -
    from that have "pq' \<in> set ?combos" by (simp add: set_combinations2 is_pair_def)
    then obtain j where j: "j < length ?combos" and pq': "?combos ! j = pq'"
      by (auto simp: in_set_conv_nth)
    have le: "?votes ! j \<le> ?votes ! ?am" using j by (intro argmax_ge) simp
    have tie: "lex_le (?combos ! ?am) pq'" if eq: "?votes ! j = ?votes ! ?am"
    proof -
      have "\<not> j < ?am" using argmax_first [of j ?votes] eq by auto
      then consider "j = ?am" | "?am < j" by linarith
      then show ?thesis
      proof cases
        case 1
        then show ?thesis using pq' by (auto simp: lex_le_def)
      next
        case 2
        then have "lex_less (?combos ! ?am) (?combos ! j)" using j by (rule combinations2_nth_less)
        then show ?thesis using pq' by (auto simp: lex_le_def lex_less_def)
      qed
    qed
    show ?thesis using le tie j am pq' by simp
  qed
  show ?thesis using res pair best by blast
qed

theorem select_best_feet_votes_witness:
  "square 4 [[0, 10, 10, 10], [10, 0, 10, 10], [10, 10, 0, 1], [10, 10, 1, 0 :: real]] \<and>
   square 4 [[0, 1, 0, 1], [0, 0, 0, 0], [0, 0, 0, 5], [0, 0, 0, 0 :: real]] \<and>
   paths_below 4 [[0], [1], [2]] \<and>
   select_best_feet exact_sum [[0, 10, 10, 10], [10, 0, 10, 10], [10, 10, 0, 1], [10, 10, 1, 0]]
       [[0, 1, 0, 1], [0, 0, 0, 0], [0, 0, 0, 5], [0, 0, 0, 0]] [[0], [1], [2]] [1 / 2, 2]
     = Inr (0, 1) \<and>
   vote_count exact_sum [[0, 10, 10, 10], [10, 0, 10, 10], [10, 10, 0, 1], [10, 10, 1, 0]]
       [[0, 1, 0, 1], [0, 0, 0, 0], [0, 0, 0, 5], [0, 0, 0, 0]] [[0], [1], [2]] [1 / 2, 2] (0, 2)
     \<le> vote_count exact_sum [[0, 10, 10, 10], [10, 0, 10, 10], [10, 10, 0, 1], [10, 10, 1, 0]]
       [[0, 1, 0, 1], [0, 0, 0, 0], [0, 0, 0, 5], [0, 0, 0, 0]] [[0], [1], [2]] [1 / 2, 2] (0, 1) \<and>
   vote_count exact_sum [[0, 10, 10, 10], [10, 0, 10, 10], [10, 10, 0, 1], [10, 10, 1, 0]]
       [[0, 1, 0, 1], [0, 0, 0, 0], [0, 0, 0, 5], [0, 0, 0, 0]] [[0], [1], [2]] [1 / 2, 2] (0, 2)
     = 1 \<and>
   lex_le (0, 1) (0, 2)"
proof -
  let ?D = "[[0, 10, 10, 10], [10, 0, 10, 10], [10, 10, 0, 1], [10, 10, 1, 0 :: real]]"
  let ?S = "[[0, 1, 0, 1], [0, 0, 0, 0], [0, 0, 0, 5], [0, 0, 0, 0 :: real]]"
  let ?P = "[[0], [1], [2 :: nat]]"
  let ?R = "[1 / 2, 2 :: real]"
  have d: "square 4 ?D" and s: "square 4 ?S" by (simp_all add: square_def)
  have p: "paths_below 4 ?P" by (simp add: paths_below_def n_path_nodes_def)
  have l: "2 \<le> length ?P" by simp
  have run: "select_best_feet exact_sum ?D ?S ?P ?R = Inr (0, 1)" by code_simp
  have v: "vote_count exact_sum ?D ?S ?P ?R (0, 2) = 1" by code_simp
  have pr: "is_pair ?P (0, 2)" by (simp add: is_pair_def)
  from select_best_feet_votes [OF d s p l, of exact_sum ?R] run pr
  have "vote_count exact_sum ?D ?S ?P ?R (0, 2) \<le> vote_count exact_sum ?D ?S ?P ?R (0, 1)" by auto
  with d s p run v show ?thesis by (simp add: lex_le_def)
qed

section \<open>Properties of enforce_consistency\<close>


lemma loc_assign_length [simp]: "length (loc_assign df f r) = length df"
  by (simp add: loc_assign_def)

lemma loc_assign_frames [simp]: "map fst (loc_assign df f r) = map fst df"
  by (auto simp: loc_assign_def)

lemma loc_assign_nth:
  "distinct (map fst df) \<Longrightarrow> i < length df \<Longrightarrow> fst (df ! i) = f \<Longrightarrow>
     loc_assign df f r = df[i := (f, r)]"
proof (rule nth_equalityI)
  show "length (loc_assign df f r) = length (df[i := (f, r)])" by simp
  fix j assume "j < length (loc_assign df f r)"
  then have j: "j < length df" by simp
  assume d: "distinct (map fst df)" and i: "i < length df" and f: "fst (df ! i) = f"
  have "fst (df ! j) = f \<longleftrightarrow> j = i"
    using d i j f nth_eq_iff_index_eq [of "map fst df" j i] by auto
  then show "loc_assign df f r ! j = df[i := (f, r)] ! j"
    using j i by (cases "df ! j") (auto simp: loc_assign_def nth_list_update)
qed

lemma consistency_loop_Inr:
  assumes "a < length st" and "distinct (map fst (st ! a))" and "distinct is"
    and "\<forall>i \<in> set is. i < length (st ! a) \<and> i < length vs"
  shows "consistency_loop st a vs is
       = Inr (st[a := map (\<lambda>i. fix_row vs is i (st ! a ! i)) [0..<length (st ! a)]])"
  using assms
proof (induction "is" arbitrary: st)
  case Nil
  have "map (\<lambda>i. st ! a ! i) [0..<length (st ! a)] = st ! a" by (rule map_nth)
  then show ?case by (simp add: fix_row_def)
next
  case (Cons i "is")
  show ?case
  proof (cases "vs ! i")
    case True
    have "consistency_loop st a vs (i # is) = consistency_loop st a vs is"
      using True Cons.prems by simp
    also have "\<dots> = Inr (st[a := map (\<lambda>i. fix_row vs is i (st ! a ! i)) [0..<length (st ! a)]])"
      using Cons.prems by (intro Cons.IH) auto
    also have "map (\<lambda>j. fix_row vs is j (st ! a ! j)) [0..<length (st ! a)]
        = map (\<lambda>j. fix_row vs (i # is) j (st ! a ! j)) [0..<length (st ! a)]"
      using True by (auto simp: fix_row_def)
    finally show ?thesis .
  next
    case False
    obtain f r where fr: "st ! a ! i = (f, r)" by (cases "st ! a ! i")
    let ?r' = "r\<lparr>L_FOOT := R_FOOT r, R_FOOT := L_FOOT r\<rparr>"
    let ?st' = "st[a := loc_assign (st ! a) f ?r']"
    have i: "i < length (st ! a)" "i < length vs" "i \<notin> set is" using Cons.prems by auto
    have la: "loc_assign (st ! a) f ?r' = (st ! a)[i := (f, ?r')]"
      using Cons.prems(2) i(1) fr by (intro loc_assign_nth) auto
    have sta: "?st' ! a = (st ! a)[i := (f, ?r')]" using Cons.prems(1) la by simp
    have "consistency_loop st a vs (i # is) = consistency_loop ?st' a vs is"
      using False i fr by (simp add: Let_def)
    also have "\<dots> = Inr (?st'[a := map (\<lambda>j. fix_row vs is j (?st' ! a ! j)) [0..<length (?st' ! a)]])"
    proof (rule Cons.IH)
      show "a < length ?st'" using Cons.prems(1) by simp
      show "distinct (map fst (?st' ! a))" using Cons.prems(1,2) by simp
      show "distinct is" using Cons.prems(3) by simp
      show "\<forall>j\<in>set is. j < length (?st' ! a) \<and> j < length vs" using Cons.prems(1,4) by simp
    qed
    also have "?st'[a := map (\<lambda>j. fix_row vs is j (?st' ! a ! j)) [0..<length (?st' ! a)]]
        = st[a := map (\<lambda>j. fix_row vs (i # is) j (st ! a ! j)) [0..<length (st ! a)]]"
    proof -
      have "map (\<lambda>j. fix_row vs is j (?st' ! a ! j)) [0..<length (?st' ! a)]
          = map (\<lambda>j. fix_row vs (i # is) j (st ! a ! j)) [0..<length (st ! a)]"
        unfolding sta using i False fr
        by (auto simp: fix_row_def nth_list_update)
      then show ?thesis by simp
    qed
    finally show ?thesis .
  qed
qed


text \<open>
  Claim C6. For a table with distinct frame numbers and a verification sequence of the
  same length, \<open>enforce_consistency\<close> returns a new table, at a fresh address, in which
  every frame whose flag is false has \<open>L_FOOT\<close> and \<open>R_FOOT\<close> exchanged and every frame
  whose flag is true is unchanged; \<open>HEAD\<close> and the frame order are unchanged everywhere,
  and the input table, like every table already in the store, is as it was.
\<close>

theorem enforce_consistency_swaps:
  assumes "df_pass < length st" and "distinct (map fst (st ! df_pass))"
    and "length vs = length (st ! df_pass)"
  shows "\<exists>st' a'. enforce_consistency st df_pass vs = Inr (st', a') \<and>
           a' = length st \<and> length st' = Suc (length st) \<and>
           (\<forall>b < length st. st' ! b = st ! b) \<and>
           map fst (st' ! a') = map fst (st ! df_pass) \<and>
           (\<forall>i < length (st ! df_pass).
              let old = snd (st ! df_pass ! i); new = snd (st' ! a' ! i) in
                HEAD new = HEAD old \<and>
                (if vs ! i then new = old
                 else L_FOOT new = R_FOOT old \<and> R_FOOT new = L_FOOT old))"
proof -
  let ?df = "st ! df_pass"
  let ?st1 = "st @ [?df]"
  let ?a = "length st"
  let ?new = "map (\<lambda>i. fix_row vs [0..<length ?df] i (?df ! i)) [0..<length ?df]"
  have a: "?st1 ! ?a = ?df" by simp
  have "consistency_loop ?st1 ?a vs [0..<length (?st1 ! ?a)]
      = Inr (?st1[?a := map (\<lambda>i. fix_row vs [0..<length (?st1 ! ?a)] i (?st1 ! ?a ! i))
                           [0..<length (?st1 ! ?a)]])"
    using assms by (intro consistency_loop_Inr) (simp_all only: a, simp_all)
  then have run: "enforce_consistency st df_pass vs = Inr (?st1[?a := ?new], ?a)"
    by (simp add: enforce_consistency_def Let_def)
  have old: "\<forall>b < length st. ?st1[?a := ?new] ! b = st ! b"
    by (simp add: nth_append)
  have new: "?st1[?a := ?new] ! ?a = ?new" by simp
  have frames: "map fst ?new = map fst ?df"
    by (rule nth_equalityI) (simp_all add: fix_row_def)
  have rows: "\<forall>i < length ?df.
              let old = snd (?df ! i); new = snd (?new ! i) in
                HEAD new = HEAD old \<and>
                (if vs ! i then new = old
                 else L_FOOT new = R_FOOT old \<and> R_FOOT new = L_FOOT old)"
    by (simp add: fix_row_def Let_def)
  show ?thesis
  proof (intro exI conjI)
    show "enforce_consistency st df_pass vs = Inr (?st1[?a := ?new], ?a)" by (rule run)
    show "length st = length st" by simp
    show "length (?st1[?a := ?new]) = Suc (length st)" by simp
    show "\<forall>b < length st. ?st1[?a := ?new] ! b = st ! b" by (rule old)
    show "map fst (?st1[?a := ?new] ! ?a) = map fst ?df"
      unfolding new by (rule frames)
    show "\<forall>i < length ?df.
              let old = snd (?df ! i); new = snd (?st1[?a := ?new] ! ?a ! i) in
                HEAD new = HEAD old \<and>
                (if vs ! i then new = old
                 else L_FOOT new = R_FOOT old \<and> R_FOOT new = L_FOOT old)"
      unfolding new by (rule rows)
  qed
qed

theorem enforce_consistency_swaps_witness:
  "enforce_consistency
     [[(0, \<lparr>HEAD = [0, 0, 1], L_FOOT = [0, 1, 0], R_FOOT = [0, -1, 0]\<rparr>),
       (1, \<lparr>HEAD = [0, 0, 1], L_FOOT = [0, -1, 0], R_FOOT = [0, 1, 0]\<rparr>)]] 0 [True, False]
   = Inr ([[(0, \<lparr>HEAD = [0, 0, 1], L_FOOT = [0, 1, 0], R_FOOT = [0, -1, 0]\<rparr>),
            (1, \<lparr>HEAD = [0, 0, 1], L_FOOT = [0, -1, 0], R_FOOT = [0, 1, 0]\<rparr>)],
           [(0, \<lparr>HEAD = [0, 0, 1], L_FOOT = [0, 1, 0], R_FOOT = [0, -1, 0]\<rparr>),
            (1, \<lparr>HEAD = [0, 0, 1], L_FOOT = [0, 1, 0], R_FOOT = [0, -1, 0]\<rparr>)]], 1)"
proof -
  let ?df = "[(0 :: nat, \<lparr>HEAD = [0, 0, 1 :: real], L_FOOT = [0, 1, 0], R_FOOT = [0, -1, 0]\<rparr>),
       (1, \<lparr>HEAD = [0, 0, 1], L_FOOT = [0, -1, 0], R_FOOT = [0, 1, 0]\<rparr>)]"
  have h1: "0 < length [?df]" by simp
  have h2: "distinct (map fst ([?df] ! 0))" by simp
  have h3: "length [True, False] = length ([?df] ! 0)" by simp
  from enforce_consistency_swaps [OF h1 h2 h3]
  obtain st' a' where r: "enforce_consistency [?df] 0 [True, False] = Inr (st', a')"
    and a': "a' = length [?df]" and len: "length st' = Suc (length [?df])"
    and old: "\<forall>b < length [?df]. st' ! b = [?df] ! b"
    by blast
  have "enforce_consistency [?df] 0 [True, False]
      = Inr ([?df, [(0, \<lparr>HEAD = [0, 0, 1], L_FOOT = [0, 1, 0], R_FOOT = [0, -1, 0]\<rparr>),
            (1, \<lparr>HEAD = [0, 0, 1], L_FOOT = [0, 1, 0], R_FOOT = [0, -1, 0]\<rparr>)]], 1)"
    by (simp add: enforce_consistency_def loc_assign_def Let_def upt_rec)
  then show ?thesis using r by simp
qed

section \<open>Properties of paths_to_foot\<close>


lemma trace_chain_Some:
  assumes "trace_chain is_source prev u path = Some y"
  shows "\<forall>p. y = Inr p \<longrightarrow>
           (\<exists>c. p = c @ path \<and> c \<noteq> [] \<and> last c = u \<and> is_source (hd c) \<and> prev (hd c) = None \<and>
              (\<forall>k. Suc k < length c \<longrightarrow> prev (c ! Suc k) = Some (c ! k)))"
  using assms
proof (induction rule: trace_chain.raw_induct [rotated 1, consumes 1])
  case (1 f is_source prev u path y)
  show ?case
  proof (intro allI impI)
    fix p assume y: "y = Inr p"
    show "\<exists>c. p = c @ path \<and> c \<noteq> [] \<and> last c = u \<and> is_source (hd c) \<and> prev (hd c) = None \<and>
              (\<forall>k. Suc k < length c \<longrightarrow> prev (c ! Suc k) = Some (c ! k))"
    proof (cases "prev u")
      case None
      with 1(2) y have "is_source u" and "p = u # path" by (auto split: if_splits)
      with None show ?thesis by (intro exI [of _ "[u]"]) auto
    next
      case (Some v)
      with 1(2) y have "f is_source prev v (u # path) = Some (Inr p)" by simp
      from 1(1) [OF this] obtain c where c: "p = c @ u # path" "c \<noteq> []" "last c = v"
        "is_source (hd c)" "prev (hd c) = None"
        "\<forall>k. Suc k < length c \<longrightarrow> prev (c ! Suc k) = Some (c ! k)"
        by blast
      have "\<forall>k. Suc k < length (c @ [u]) \<longrightarrow> prev ((c @ [u]) ! Suc k) = Some ((c @ [u]) ! k)"
      proof (intro allI impI)
        fix k assume k: "Suc k < length (c @ [u])"
        show "prev ((c @ [u]) ! Suc k) = Some ((c @ [u]) ! k)"
        proof (cases "Suc k < length c")
          case True
          then show ?thesis using c(6) by (simp add: nth_append)
        next
          case False
          with k have kl: "k = length c - 1" and lc: "length c = Suc k" by simp_all
          have "c ! k = v" using c(2,3) kl by (simp add: last_conv_nth)
          then show ?thesis using Some lc by (simp add: nth_append)
        qed
      qed
      with c show ?thesis by (intro exI [of _ "c @ [u]"]) auto
    qed
  qed
qed


lemma trace_path_chain:
  assumes "trace_path is_source prev foot = Some (Inr path)"
  shows "chain_to is_source prev path foot"
proof -
  from trace_chain_Some [OF assms [unfolded trace_path_def]]
  obtain c where "path = c @ []" "c \<noteq> []" "last c = foot" "is_source (hd c)" "prev (hd c) = None"
    "\<forall>k. Suc k < length c \<longrightarrow> prev (c ! Suc k) = Some (c ! k)"
    by blast
  then show ?thesis by (auto simp: chain_to_def)
qed

lemma feet_loop_Inr:
  "feet_loop tp prev dists ncols feet = Some (Inr (rows, ds)) \<Longrightarrow>
     length rows = length feet \<and> length ds = length feet \<and>
     (\<forall>i < length feet. \<exists>path. tp prev (feet ! i) = Some (Inr path) \<and>
          assign_row ncols path = Inr (rows ! i) \<and> dists (feet ! i) = Some (ds ! i))"
proof (induction feet arbitrary: rows ds)
  case Nil
  then show ?case by simp
next
  case (Cons foot feet)
  from Cons.prems obtain path row d rows' ds' where
    tp: "tp prev foot = Some (Inr path)" and row: "assign_row ncols path = Inr row"
    and d: "dists foot = Some d"
    and rest: "feet_loop tp prev dists ncols feet = Some (Inr (rows', ds'))"
    and eq: "rows = row # rows'" "ds = d # ds'"
    by (auto split: option.splits sum.splits prod.splits)
  note ih = Cons.IH [OF rest]
  show ?case
  proof (intro conjI allI impI)
    show "length rows = length (foot # feet)" using ih eq by simp
    show "length ds = length (foot # feet)" using ih eq by simp
    fix i assume "i < length (foot # feet)"
    then show "\<exists>path. tp prev ((foot # feet) ! i) = Some (Inr path) \<and>
          assign_row ncols path = Inr (rows ! i) \<and> dists ((foot # feet) ! i) = Some (ds ! i)"
      using tp row d ih eq by (cases i) auto
  qed
qed

lemma trace_chain_follow:
  assumes "c \<noteq> []" and "is_source (hd c)" and "prev (hd c) = None"
    and "\<forall>k. Suc k < length c \<longrightarrow> prev (c ! Suc k) = Some (c ! k)"
  shows "trace_chain is_source prev (last c) path = Some (Inr (c @ path))"
  using assms
proof (induction c arbitrary: path rule: rev_induct)
  case Nil
  then show ?case by simp
next
  case (snoc u c)
  show ?case
  proof (cases "c = []")
    case True
    with snoc.prems show ?thesis by (subst trace_chain.simps) simp
  next
    case False
    have hd: "hd (c @ [u]) = hd c" using False by simp
    have link: "prev u = Some (last c)"
    proof -
      have "Suc (length c - 1) < length (c @ [u])" using False by simp
      with snoc.prems(4) have "prev ((c @ [u]) ! Suc (length c - 1)) = Some ((c @ [u]) ! (length c - 1))"
        by blast
      then show ?thesis using False by (simp add: nth_append last_conv_nth)
    qed
    have links: "\<forall>k. Suc k < length c \<longrightarrow> prev (c ! Suc k) = Some (c ! k)"
    proof (intro allI impI)
      fix k assume k: "Suc k < length c"
      then have "Suc k < length (c @ [u])" by simp
      with snoc.prems(4) have "prev ((c @ [u]) ! Suc k) = Some ((c @ [u]) ! k)" by blast
      then show "prev (c ! Suc k) = Some (c ! k)" using k by (simp add: nth_append)
    qed
    have "trace_chain is_source prev (last c) (u # path) = Some (Inr (c @ u # path))"
      using snoc.IH [OF False _ _ links] snoc.prems(2,3) hd by simp
    then show ?thesis using link by (subst trace_chain.simps) simp
  qed
qed

lemma trace_path_follow:
  assumes "chain_to is_source prev path foot"
  shows "trace_path is_source prev foot = Some (Inr path)"
proof -
  have links: "\<forall>k. Suc k < length path \<longrightarrow> prev (path ! Suc k) = Some (path ! k)"
    using assms by (auto simp: chain_to_def)
  from assms have "path \<noteq> []" "is_source (hd path)" "prev (hd path) = None" "last path = foot"
    by (auto simp: chain_to_def)
  with trace_chain_follow [where c = path and is_source = is_source and prev = prev and path = "[]"] links
  show ?thesis
    by (simp add: trace_path_def)
qed

lemma feet_loop_total:
  assumes "\<forall>foot \<in> set feet. tp prev foot = Some (Inr (g foot)) \<and> length (g foot) = ncols \<and>
             dists foot = Some (dv foot)"
  shows "feet_loop tp prev dists ncols feet = Some (Inr (map g feet, map dv feet))"
  using assms by (induction feet) (simp_all add: assign_row_def)

text \<open>
  Claim C4, as amended. For every predecessor map, distance map and label array in
  which every foot node (a node whose label is the maximum label) has a distance and
  an unbroken predecessor chain of \<open>max_label + 1\<close> nodes from a source,
  \<open>paths_to_foot\<close> returns a matrix with one row per foot node, in node order, each row
  being the predecessor chain from a source to that foot, together with the distance of
  the foot. No row is ever dropped: whatever \<open>trace_path\<close> does, a returned matrix
  and distance vector have one row per foot node, row \<open>i\<close> being the traced path of
  foot \<open>i\<close> assigned to a row of \<open>max_label + 1\<close> columns.
\<close>

theorem paths_to_foot_rows:
  "(labels \<noteq> [] \<and>
    (\<forall>foot \<in> set (foot_index labels). dists foot \<noteq> None \<and>
       (\<exists>path. chain_to is_source prev path foot \<and> length path = Max (set labels) + 1)) \<longrightarrow>
      (\<exists>PM PD. paths_to_foot (trace_path is_source) prev dists labels = Some (Inr (PM, PD)) \<and>
         length PM = length (foot_index labels) \<and> length PD = length (foot_index labels) \<and>
         (\<forall>i < length (foot_index labels).
            chain_to is_source prev (PM ! i) (foot_index labels ! i) \<and>
            length (PM ! i) = Max (set labels) + 1 \<and>
            dists (foot_index labels ! i) = Some (PD ! i)))) \<and>
   (\<forall>tp PM PD. paths_to_foot tp prev dists labels = Some (Inr (PM, PD)) \<longrightarrow>
      length PM = length (foot_index labels) \<and> length PD = length (foot_index labels) \<and>
      (\<forall>i < length (foot_index labels).
         \<exists>path. tp prev (foot_index labels ! i) = Some (Inr path) \<and>
           assign_row (Max (set labels) + 1) path = Inr (PM ! i) \<and>
           dists (foot_index labels ! i) = Some (PD ! i)))"
proof (rule conjI)
  show "labels \<noteq> [] \<and>
    (\<forall>foot \<in> set (foot_index labels). dists foot \<noteq> None \<and>
       (\<exists>path. chain_to is_source prev path foot \<and> length path = Max (set labels) + 1)) \<longrightarrow>
      (\<exists>PM PD. paths_to_foot (trace_path is_source) prev dists labels = Some (Inr (PM, PD)) \<and>
         length PM = length (foot_index labels) \<and> length PD = length (foot_index labels) \<and>
         (\<forall>i < length (foot_index labels).
            chain_to is_source prev (PM ! i) (foot_index labels ! i) \<and>
            length (PM ! i) = Max (set labels) + 1 \<and>
            dists (foot_index labels ! i) = Some (PD ! i)))"
  proof (intro impI, elim conjE)
    assume ne: "labels \<noteq> []"
      and feet: "\<forall>foot \<in> set (foot_index labels). dists foot \<noteq> None \<and>
       (\<exists>path. chain_to is_source prev path foot \<and> length path = Max (set labels) + 1)"
    from feet have "\<forall>foot \<in> set (foot_index labels). \<exists>path.
        chain_to is_source prev path foot \<and> length path = Max (set labels) + 1"
      by blast
    then obtain g where g: "\<forall>foot \<in> set (foot_index labels).
        chain_to is_source prev (g foot) foot \<and> length (g foot) = Max (set labels) + 1"
      by (auto dest: bchoice)
    define dv where "dv = (\<lambda>foot. the (dists foot))"
    from feet have dv: "\<forall>foot \<in> set (foot_index labels). dists foot = Some (dv foot)"
      by (auto simp: dv_def)
    have "feet_loop (trace_path is_source) prev dists (Max (set labels) + 1) (foot_index labels)
        = Some (Inr (map g (foot_index labels), map dv (foot_index labels)))"
      using g dv by (intro feet_loop_total) (auto simp: trace_path_follow)
    then have run: "paths_to_foot (trace_path is_source) prev dists labels
        = Some (Inr (map g (foot_index labels), map dv (foot_index labels)))"
      using ne by (simp add: paths_to_foot_def Let_def)
    show "\<exists>PM PD. paths_to_foot (trace_path is_source) prev dists labels = Some (Inr (PM, PD)) \<and>
         length PM = length (foot_index labels) \<and> length PD = length (foot_index labels) \<and>
         (\<forall>i < length (foot_index labels).
            chain_to is_source prev (PM ! i) (foot_index labels ! i) \<and>
            length (PM ! i) = Max (set labels) + 1 \<and>
            dists (foot_index labels ! i) = Some (PD ! i))"
      using run g dv
      by (intro exI [of _ "map g (foot_index labels)"] exI [of _ "map dv (foot_index labels)"]) simp
  qed
next
  show "\<forall>tp PM PD. paths_to_foot tp prev dists labels = Some (Inr (PM, PD)) \<longrightarrow>
      length PM = length (foot_index labels) \<and> length PD = length (foot_index labels) \<and>
      (\<forall>i < length (foot_index labels).
         \<exists>path. tp prev (foot_index labels ! i) = Some (Inr path) \<and>
           assign_row (Max (set labels) + 1) path = Inr (PM ! i) \<and>
           dists (foot_index labels ! i) = Some (PD ! i))"
  proof (intro allI impI)
    fix tp PM PD
    assume "paths_to_foot tp prev dists labels = Some (Inr (PM, PD))"
    then have "feet_loop tp prev dists (Max (set labels) + 1) (foot_index labels)
        = Some (Inr (PM, PD))"
      by (auto simp: paths_to_foot_def Let_def split: if_splits)
    then show "length PM = length (foot_index labels) \<and> length PD = length (foot_index labels) \<and>
      (\<forall>i < length (foot_index labels).
         \<exists>path. tp prev (foot_index labels ! i) = Some (Inr path) \<and>
           assign_row (Max (set labels) + 1) path = Inr (PM ! i) \<and>
           dists (foot_index labels ! i) = Some (PD ! i))"
      by (rule feet_loop_Inr)
  qed
qed

theorem paths_to_foot_rows_witness:
  "foot_index [0, 1, 2, 3, 4, 4] = [4, 5] \<and>
   chain_to (is_head [0, 1, 2, 3, 4, 4]) [1 \<mapsto> 0, 2 \<mapsto> 1, 3 \<mapsto> 2, 4 \<mapsto> 3, 5 \<mapsto> 3] [0, 1, 2, 3, 4] 4 \<and>
   chain_to (is_head [0, 1, 2, 3, 4, 4]) [1 \<mapsto> 0, 2 \<mapsto> 1, 3 \<mapsto> 2, 4 \<mapsto> 3, 5 \<mapsto> 3] [0, 1, 2, 3, 5] 5 \<and>
   paths_to_foot (trace_path (is_head [0, 1, 2, 3, 4, 4]))
     [1 \<mapsto> 0, 2 \<mapsto> 1, 3 \<mapsto> 2, 4 \<mapsto> 3, 5 \<mapsto> 3]
     [0 \<mapsto> 0 :: real, 1 \<mapsto> 0, 2 \<mapsto> 20, 3 \<mapsto> 5, 4 \<mapsto> 11, 5 \<mapsto> 10] [0, 1, 2, 3, 4, 4]
   = Some (Inr ([[0, 1, 2, 3, 4], [0, 1, 2, 3, 5]], [11, 10])) \<and>
   (\<exists>PM PD. paths_to_foot (trace_path (is_head [0, 1, 2, 3, 4, 4]))
       [1 \<mapsto> 0, 2 \<mapsto> 1, 3 \<mapsto> 2, 4 \<mapsto> 3, 5 \<mapsto> 3]
       [0 \<mapsto> 0 :: real, 1 \<mapsto> 0, 2 \<mapsto> 20, 3 \<mapsto> 5, 4 \<mapsto> 11, 5 \<mapsto> 10] [0, 1, 2, 3, 4, 4]
     = Some (Inr (PM, PD)) \<and> length PM = length (foot_index [0, 1, 2, 3, 4, 4]))"
proof -
  let ?L = "[0, 1, 2, 3, 4, 4 :: nat]"
  let ?prev = "[1 \<mapsto> 0, 2 \<mapsto> 1, 3 \<mapsto> 2, 4 \<mapsto> 3, 5 \<mapsto> 3 :: nat]"
  let ?dist = "[0 \<mapsto> 0 :: real, 1 \<mapsto> 0, 2 \<mapsto> 20, 3 \<mapsto> 5, 4 \<mapsto> 11, 5 \<mapsto> 10]"
  have feet: "foot_index ?L = [4, 5]" by code_simp
  have mx: "Max (set ?L) + 1 = 5" by simp
  have c4: "chain_to (is_head ?L) ?prev [0, 1, 2, 3, 4] 4" by code_simp
  have c5: "chain_to (is_head ?L) ?prev [0, 1, 2, 3, 5] 5" by code_simp
  have run: "paths_to_foot (trace_path (is_head ?L)) ?prev ?dist ?L
      = Some (Inr ([[0, 1, 2, 3, 4], [0, 1, 2, 3, 5]], [11, 10]))"
    by code_simp
  have hyp: "?L \<noteq> [] \<and>
    (\<forall>foot \<in> set (foot_index ?L). ?dist foot \<noteq> None \<and>
       (\<exists>path. chain_to (is_head ?L) ?prev path foot \<and> length path = Max (set ?L) + 1))"
    unfolding feet mx using c4 c5 by auto
  from paths_to_foot_rows [of ?L ?dist "is_head ?L" ?prev] hyp
  have "\<exists>PM PD. paths_to_foot (trace_path (is_head ?L)) ?prev ?dist ?L = Some (Inr (PM, PD)) \<and>
      length PM = length (foot_index ?L)"
    by blast
  with feet c4 c5 run show ?thesis by blast
qed

text \<open>
  Claim C4 as stated fails: with a head, a foot whose predecessor is the head and a
  second foot without predecessor, the claim has the second row dropped and the matrix
  \<open>[[0, 1]]\<close> returned with the distances \<open>[4]\<close>. With the \<open>trace_path\<close> of the
  specification, which knows the heads as sources, the call fails as a whole; with a
  \<open>trace_path\<close> that takes every node without predecessor for a source, the row of the
  second foot is kept, filled with that foot.
\<close>

theorem paths_to_foot_drop_counterexample:
  "paths_to_foot (trace_path (is_head [0, 1, 1])) [1 \<mapsto> 0]
     [0 \<mapsto> Fin 0, 1 \<mapsto> Fin 4, 2 \<mapsto> PInf] [0, 1, 1] = Some (Inl PathBroken) \<and>
   paths_to_foot (trace_path (\<lambda>v. True)) [1 \<mapsto> 0]
     [0 \<mapsto> Fin 0, 1 \<mapsto> Fin 4, 2 \<mapsto> PInf] [0, 1, 1]
     = Some (Inr ([[0, 1], [2, 2]], [Fin 4, PInf])) \<and>
   paths_to_foot (trace_path (is_head [0, 1, 1])) [1 \<mapsto> 0]
     [0 \<mapsto> Fin 0, 1 \<mapsto> Fin 4, 2 \<mapsto> PInf] [0, 1, 1] \<noteq> Some (Inr ([[0, 1]], [Fin 4])) \<and>
   paths_to_foot (trace_path (\<lambda>v. True)) [1 \<mapsto> 0]
     [0 \<mapsto> Fin 0, 1 \<mapsto> Fin 4, 2 \<mapsto> PInf] [0, 1, 1] \<noteq> Some (Inr ([[0, 1]], [Fin 4]))"
proof -
  have a: "paths_to_foot (trace_path (is_head [0, 1, 1])) [1 \<mapsto> 0]
     [0 \<mapsto> Fin 0, 1 \<mapsto> Fin 4, 2 \<mapsto> PInf] [0, 1, 1] = Some (Inl PathBroken)"
    by code_simp
  have b: "paths_to_foot (trace_path (\<lambda>v. True)) [1 \<mapsto> 0]
     [0 \<mapsto> Fin 0, 1 \<mapsto> Fin 4, 2 \<mapsto> PInf] [0, 1, 1]
     = Some (Inr ([[0, 1], [2, 2]], [Fin 4, PInf]))"
    by code_simp
  show ?thesis unfolding a b by simp
qed

section \<open>Properties of get_score_matrix\<close>

lemma euclid_z: "euclid [x, y, a] [x, y, b] = \<bar>a - b\<bar>"
  by (simp add: euclid_def)

lemma nan_to_zero_no_nan: "\<forall>row \<in> set (nan_to_zero M). \<forall>s \<in> set row. s \<noteq> NaN"
  by (auto simp: nan_to_zero_def)

lemma cdist_shape: "length (cdist A B) = length A" "i < length A \<Longrightarrow> length (cdist A B ! i) = length B"
  "i < length A \<Longrightarrow> j < length B \<Longrightarrow> cdist A B ! i ! j = euclid (A ! i) (B ! j)"
  by (simp_all add: cdist_def)

lemma expected_shape: "length (expected_matrix L C) = length L"
  "i < length L \<Longrightarrow> length (expected_matrix L C ! i) = length L"
  "i < length L \<Longrightarrow> j < length L \<Longrightarrow> expected_matrix L C ! i ! j = expected_dist L C i j"
  by (simp_all add: expected_matrix_def)

lemma map_err_Inr_iff:
  "map_err f xs = Inr ys \<longleftrightarrow>
     length ys = length xs \<and> (\<forall>i < length xs. f (xs ! i) = Inr (ys ! i))"
proof (induction xs arbitrary: ys)
  case Nil
  then show ?case by auto
next
  case (Cons x xs)
  show ?case
  proof (cases ys)
    case Nil
    then show ?thesis by (auto split: sum.splits)
  next
    case (Cons y ys')
    then show ?thesis
      using Cons.IH [of ys'] by (auto simp: less_Suc_eq_0_disj split: sum.splits)
  qed
qed

lemma map_err_Inl_iff: "(\<exists>e. map_err f xs = Inl e) \<longleftrightarrow> (\<exists>x \<in> set xs. \<exists>e. f x = Inl e)"
  by (induction xs) (auto split: sum.splits)

lemma map_err_cases: "(\<exists>e. map_err f xs = Inl e) \<or> (\<exists>ys. map_err f xs = Inr ys)"
  by (cases "map_err f xs") auto

lemma map_err2_Inr_iff:
  "map_err (map_err f) xss = Inr yss \<longleftrightarrow>
     length yss = length xss \<and>
     (\<forall>i < length xss. length (yss ! i) = length (xss ! i) \<and>
        (\<forall>j < length (xss ! i). f (xss ! i ! j) = Inr (yss ! i ! j)))"
  by (simp add: map_err_Inr_iff)

lemma map_err2_Inl_iff:
  "(\<exists>e. map_err (map_err f) xss = Inl e) \<longleftrightarrow>
     (\<exists>i < length xss. \<exists>j < length (xss ! i). \<exists>e. f (xss ! i ! j) = Inl e)"
  by (simp add: map_err_Inl_iff) (metis in_set_conv_nth)

lemma first_output_nth:
  assumes "outs \<noteq> []" and "outs ! 0 \<noteq> []"
  shows "first_output outs = Some (outs ! 0 ! 0)"
proof -
  from assms obtain r rs where o: "outs = r # rs" by (cases outs) auto
  with assms obtain v vs where "r = v # vs" by (cases r) auto
  with o show ?thesis by simp
qed

lemma vectorize_pairs_same:
  assumes "P \<noteq> []" and "length L = length P"
  shows "\<exists>pairs. vectorize_pairs (cdist P P) (expected_matrix L C) = Inr pairs \<and>
           length pairs = length P \<and>
           (\<forall>i < length P. length (pairs ! i) = length P \<and>
              (\<forall>j < length P. pairs ! i ! j = (cdist P P ! i ! j, expected_dist L C i j)))"
proof -
  let ?D = "cdist P P" and ?E = "expected_matrix L C"
  have ne: "?D \<noteq> []" "?E \<noteq> []" using assms by (auto simp: cdist_def expected_matrix_def)
  have len: "length ?D = length ?E" using assms by (simp add: cdist_shape expected_shape)
  have vp: "vectorize_pairs ?D ?E = Inr (map (\<lambda>(ds, es). zip ds es) (zip ?D ?E))"
    using ne len by (simp add: vectorize_pairs_def)
  show ?thesis
    unfolding vp using assms(2) by (simp add: cdist_shape expected_shape)
qed

lemma to_dtype_NaN:
  "to_dtype np_float v0 v = Inr s \<Longrightarrow> s = NaN \<longleftrightarrow> v = PyFloat NaN"
  by (cases "(np_float, v0, v)" rule: to_dtype.cases) (auto split: if_splits)

text \<open>What a call of \<open>get_score_matrix\<close> that returns has done.\<close>

lemma get_score_matrix_Inr:
  assumes run: "get_score_matrix np_float P L C f = Inr (S, D)" and len: "length L = length P"
  shows "D = cdist P P \<and> length S = length P \<and>
         (\<exists>v0. f (D ! 0 ! 0) (expected_dist L C 0 0) = Inr v0 \<and>
            (\<forall>i < length P. length (S ! i) = length P \<and>
               (\<forall>j < length P. \<exists>v s. f (D ! i ! j) (expected_dist L C i j) = Inr v \<and>
                    to_dtype np_float v0 v = Inr s \<and>
                    S ! i ! j = (if s = NaN then Num 0 else s))))"
proof -
  have ne: "P \<noteq> []"
    using run
    by (auto simp: get_score_matrix_def vectorize_pairs_def cdist_def Let_def split: if_splits)
  from vectorize_pairs_same [OF ne len, of C] obtain pairs where
    vp: "vectorize_pairs (cdist P P) (expected_matrix L C) = Inr pairs"
    and pl: "length pairs = length P"
    and pe: "\<forall>i < length P. length (pairs ! i) = length P \<and>
              (\<forall>j < length P. pairs ! i ! j = (cdist P P ! i ! j, expected_dist L C i j))"
    by blast
  from run vp obtain M where
    vc: "vectorize_call np_float f pairs = Inr M" and S: "S = nan_to_zero M" and D: "D = cdist P P"
    by (auto simp: get_score_matrix_def Let_def split: sum.splits)
  from vc obtain outs v0 where
    calls: "map_err (map_err (\<lambda>(d, e). f d e)) pairs = Inr outs"
    and first: "first_output outs = Some v0"
    and conv: "map_err (map_err (to_dtype np_float v0)) outs = Inr M"
    by (auto simp: vectorize_call_def split: sum.splits option.splits)
  from calls have ol: "length outs = length P"
    and oe: "\<forall>i < length P. length (outs ! i) = length P \<and>
        (\<forall>j < length P. f (cdist P P ! i ! j) (expected_dist L C i j) = Inr (outs ! i ! j))"
    using pl pe by (auto simp: map_err2_Inr_iff)
  from conv have ml: "length M = length P"
    and me: "\<forall>i < length P. length (M ! i) = length P \<and>
        (\<forall>j < length P. to_dtype np_float v0 (outs ! i ! j) = Inr (M ! i ! j))"
    using ol oe by (auto simp: map_err2_Inr_iff)
  have pos: "0 < length P" using ne by simp
  have "outs \<noteq> []" "outs ! 0 \<noteq> []" using ol oe pos by auto
  from first_output_nth [OF this] first have v0: "v0 = outs ! 0 ! 0" by simp
  have f0: "f (D ! 0 ! 0) (expected_dist L C 0 0) = Inr v0"
    using oe pos v0 D by simp
  have entries: "\<forall>i < length P. length (S ! i) = length P \<and>
               (\<forall>j < length P. \<exists>v s. f (D ! i ! j) (expected_dist L C i j) = Inr v \<and>
                    to_dtype np_float v0 v = Inr s \<and>
                    S ! i ! j = (if s = NaN then Num 0 else s))"
  proof (intro allI impI conjI)
    fix i assume i: "i < length P"
    show "length (S ! i) = length P" using i ml me by (simp add: S nan_to_zero_def)
    fix j assume j: "j < length P"
    have "f (D ! i ! j) (expected_dist L C i j) = Inr (outs ! i ! j)" using oe i j D by simp
    moreover have "to_dtype np_float v0 (outs ! i ! j) = Inr (M ! i ! j)" using me i j by simp
    moreover have "S ! i ! j = (if M ! i ! j = NaN then Num 0 else M ! i ! j)"
      using i j ml me by (simp add: S nan_to_zero_def)
    ultimately show "\<exists>v s. f (D ! i ! j) (expected_dist L C i j) = Inr v \<and>
                    to_dtype np_float v0 v = Inr s \<and>
                    S ! i ! j = (if s = NaN then Num 0 else s)"
      by blast
  qed
  have "length S = length P" using ml by (simp add: S nan_to_zero_def)
  with D f0 entries show ?thesis by blast
qed

text \<open>A call in which the score function raises at no pair, and every output converts.\<close>

lemma get_score_matrix_total:
  assumes ne: "P \<noteq> []" and len: "length L = length P"
    and f0: "f (cdist P P ! 0 ! 0) (expected_dist L C 0 0) = Inr v0"
    and all: "\<forall>i < length P. \<forall>j < length P. \<exists>v s.
        f (cdist P P ! i ! j) (expected_dist L C i j) = Inr v \<and> to_dtype np_float v0 v = Inr s"
  shows "\<exists>S. get_score_matrix np_float P L C f = Inr (S, cdist P P)"
proof -
  from vectorize_pairs_same [OF ne len, of C] obtain pairs where
    vp: "vectorize_pairs (cdist P P) (expected_matrix L C) = Inr pairs"
    and pl: "length pairs = length P"
    and pe: "\<forall>i < length P. length (pairs ! i) = length P \<and>
              (\<forall>j < length P. pairs ! i ! j = (cdist P P ! i ! j, expected_dist L C i j))"
    by blast
  have "\<not> (\<exists>e. map_err (map_err (\<lambda>(d, e). f d e)) pairs = Inl e)"
    unfolding map_err2_Inl_iff using pl pe all by fastforce
  with map_err_cases [of "map_err (\<lambda>(d, e). f d e)" pairs] obtain outs where
    calls: "map_err (map_err (\<lambda>(d, e). f d e)) pairs = Inr outs"
    by blast
  then have ol: "length outs = length P"
    and oe: "\<forall>i < length P. length (outs ! i) = length P \<and>
        (\<forall>j < length P. f (cdist P P ! i ! j) (expected_dist L C i j) = Inr (outs ! i ! j))"
    using pl pe by (auto simp: map_err2_Inr_iff)
  have pos: "0 < length P" using ne by simp
  have "outs \<noteq> []" "outs ! 0 \<noteq> []" using ol oe pos by auto
  from first_output_nth [OF this] have "first_output outs = Some (outs ! 0 ! 0)" .
  moreover have "outs ! 0 ! 0 = v0" using oe pos f0 by simp
  ultimately have first: "first_output outs = Some v0" by simp
  have conv_ok: "\<exists>s. to_dtype np_float v0 (outs ! i ! j) = Inr s"
    if "i < length P" "j < length P" for i j
    using all oe that by fastforce
  have "\<not> (\<exists>e. map_err (map_err (to_dtype np_float v0)) outs = Inl e)"
    unfolding map_err2_Inl_iff using ol oe conv_ok by fastforce
  with map_err_cases [of "map_err (to_dtype np_float v0)" outs] obtain M where
    "map_err (map_err (to_dtype np_float v0)) outs = Inr M"
    by blast
  with vp calls first show ?thesis
    by (simp add: get_score_matrix_def vectorize_call_def Let_def)
qed

text \<open>A call in which the score function raises at some pair.\<close>

lemma get_score_matrix_raises:
  assumes ne: "P \<noteq> []" and len: "length L = length P"
    and "i < length P" and "j < length P"
    and "f (cdist P P ! i ! j) (expected_dist L C i j) = Inl e"
  shows "\<exists>e'. get_score_matrix np_float P L C f = Inl e'"
proof -
  from vectorize_pairs_same [OF ne len, of C] obtain pairs where
    vp: "vectorize_pairs (cdist P P) (expected_matrix L C) = Inr pairs"
    and pl: "length pairs = length P"
    and pe: "\<forall>i < length P. length (pairs ! i) = length P \<and>
              (\<forall>j < length P. pairs ! i ! j = (cdist P P ! i ! j, expected_dist L C i j))"
    by blast
  have "\<exists>e. map_err (map_err (\<lambda>(d, e). f d e)) pairs = Inl e"
    unfolding map_err2_Inl_iff using pl pe assms(3-5) by fastforce
  with vp show ?thesis
    by (auto simp: get_score_matrix_def vectorize_call_def Let_def)
qed

lemma canonical_score_Inr:
  "canonical_score m e = Inr v \<Longrightarrow> e \<noteq> Num 0 \<and> (e = NaN \<longrightarrow> v = PyFloat NaN)"
  by (auto simp: canonical_score_def split: npfloat.splits if_splits)

lemma expected_dist_not_allowed: "\<not> allowed_pair C (L ! i) (L ! j) \<Longrightarrow> expected_dist L C i j = NaN"
  by (auto simp: expected_dist_def allowed_pair_def split: option.splits)

lemma score_example_pairs:
  "vectorize_pairs (cdist [[0, 0, 0], [0, 0, 10], [0, 0, 12]] [[0, 0, 0], [0, 0, 10], [0, 0, 12]])
     (expected_matrix [0, 1, 1] [0 \<mapsto> [1 \<mapsto> 10], 1 \<mapsto> Map.empty])
   = Inr [[(0, NaN), (10, Num 10), (12, Num 10)], [(10, NaN), (0, NaN), (2, NaN)],
          [(12, NaN), (2, NaN), (0, NaN)]]"
  by (simp add: cdist_def euclid_z expected_matrix_def expected_dist_def vectorize_pairs_def upt_rec)

lemma score_example_call:
  "vectorize_call real_of_int canonical_score
     [[(0, NaN), (10, Num 10), (12, Num 10)], [(10, NaN), (0, NaN), (2, NaN)],
      [(12, NaN), (2, NaN), (0, NaN)]]
   = Inr [[NaN, Num 1, Num (24 / 25)], [NaN, NaN, NaN], [NaN, NaN, NaN]]"
  by (simp add: vectorize_call_def canonical_score_def power2_eq_square)

lemma score_example_dist:
  "cdist [[0, 0, 0], [0, 0, 10], [0, 0, 12]] [[0, 0, 0], [0, 0, 10], [0, 0, 12]]
   = [[0, 10, 12], [10, 0, 2], [12, 2, 0]]"
  by (simp add: cdist_def euclid_z)

lemma frame_example_scores:
  "get_score_matrix real_of_int [[0, 0, 0], [0, 0, 10], [0, 0, 12]] [0, 1, 1]
       [0 \<mapsto> [1 \<mapsto> 10], 1 \<mapsto> Map.empty] canonical_score
     = Inr ([[Num 0, Num 1, Num (24 / 25)], [Num 0, Num 0, Num 0], [Num 0, Num 0, Num 0]],
            [[0, 10, 12], [10, 0, 2], [12, 2, 0]])"
  by (simp only: get_score_matrix_def Let_def score_example_pairs score_example_call sum.case)
    (simp add: nan_to_zero_def score_example_dist)

lemma zero_example_pairs:
  "vectorize_pairs (cdist [[0, 0, 0], [0, 0, 10]] [[0, 0, 0], [0, 0, 10]])
     (expected_matrix [0, 1] [0 \<mapsto> [1 \<mapsto> e], 1 \<mapsto> Map.empty])
   = Inr [[(0, NaN), (10, Num e)], [(10, NaN), (0, NaN)]]"
  by (simp add: cdist_def euclid_z expected_matrix_def expected_dist_def vectorize_pairs_def upt_rec)

lemma zero_example_call:
  "vectorize_call real_of_int canonical_score [[(0, NaN), (10, Num 0)], [(10, NaN), (0, NaN)]]
   = Inl ZeroDivisionError"
  by (simp add: vectorize_call_def canonical_score_def)

text \<open>
  Claim C8, as amended. No entry of a score matrix returned by \<open>get_score_matrix\<close> is
  NaN. For a population and a label array of the same length, a returned matrix is
  \<open>n \<times> n\<close>, the score function has returned at every pair, and entry \<open>(i, j)\<close> is \<open>0\<close>
  where it returned NaN and its output, converted to the type of the first output,
  elsewhere. On a non-empty population the call returns if the score function returns
  at every pair and every output converts, and it raises if the score function raises
  at some pair. With the canonical score, a returned matrix has \<open>0\<close> at every pair
  whose labels are no part connection, and no pair has the expected length zero: there
  the canonical score raises, and so does \<open>get_score_matrix\<close>.
\<close>

theorem get_score_matrix_nan_free:
  "(\<forall>S D. get_score_matrix np_float P L C f = Inr (S, D) \<longrightarrow>
      (\<forall>row \<in> set S. \<forall>s \<in> set row. s \<noteq> NaN) \<and>
      (length L = length P \<longrightarrow>
         D = cdist P P \<and> length S = length P \<and>
         (\<exists>v0. f (D ! 0 ! 0) (expected_dist L C 0 0) = Inr v0 \<and>
            (\<forall>i < length P. length (S ! i) = length P \<and>
               (\<forall>j < length P. \<exists>v s. f (D ! i ! j) (expected_dist L C i j) = Inr v \<and>
                    to_dtype np_float v0 v = Inr s \<and>
                    (v = PyFloat NaN \<longrightarrow> S ! i ! j = Num 0) \<and>
                    (v \<noteq> PyFloat NaN \<longrightarrow> S ! i ! j = s)))))) \<and>
   (P \<noteq> [] \<and> length L = length P \<longrightarrow>
      ((\<exists>v0. f (cdist P P ! 0 ! 0) (expected_dist L C 0 0) = Inr v0 \<and>
          (\<forall>i < length P. \<forall>j < length P. \<exists>v s.
             f (cdist P P ! i ! j) (expected_dist L C i j) = Inr v \<and>
             to_dtype np_float v0 v = Inr s)) \<longrightarrow>
         (\<exists>S. get_score_matrix np_float P L C f = Inr (S, cdist P P))) \<and>
      ((\<exists>i < length P. \<exists>j < length P. \<exists>e.
          f (cdist P P ! i ! j) (expected_dist L C i j) = Inl e) \<longrightarrow>
         (\<exists>e. get_score_matrix np_float P L C f = Inl e))) \<and>
   (\<forall>S D. get_score_matrix np_float P L C canonical_score = Inr (S, D) \<and>
        length L = length P \<longrightarrow>
      (\<forall>i < length P. \<forall>j < length P.
         expected_dist L C i j \<noteq> Num 0 \<and>
         (\<not> allowed_pair C (L ! i) (L ! j) \<longrightarrow> S ! i ! j = Num 0)))"
proof (intro conjI)
  show "\<forall>S D. get_score_matrix np_float P L C f = Inr (S, D) \<longrightarrow>
      (\<forall>row \<in> set S. \<forall>s \<in> set row. s \<noteq> NaN) \<and>
      (length L = length P \<longrightarrow>
         D = cdist P P \<and> length S = length P \<and>
         (\<exists>v0. f (D ! 0 ! 0) (expected_dist L C 0 0) = Inr v0 \<and>
            (\<forall>i < length P. length (S ! i) = length P \<and>
               (\<forall>j < length P. \<exists>v s. f (D ! i ! j) (expected_dist L C i j) = Inr v \<and>
                    to_dtype np_float v0 v = Inr s \<and>
                    (v = PyFloat NaN \<longrightarrow> S ! i ! j = Num 0) \<and>
                    (v \<noteq> PyFloat NaN \<longrightarrow> S ! i ! j = s)))))"
  proof (intro allI impI)
    fix S D assume run: "get_score_matrix np_float P L C f = Inr (S, D)"
    then have "\<exists>M. S = nan_to_zero M"
      by (auto simp: get_score_matrix_def Let_def split: sum.splits)
    then have nonan: "\<forall>row \<in> set S. \<forall>s \<in> set row. s \<noteq> NaN"
      using nan_to_zero_no_nan by blast
    have entries: "D = cdist P P \<and> length S = length P \<and>
         (\<exists>v0. f (D ! 0 ! 0) (expected_dist L C 0 0) = Inr v0 \<and>
            (\<forall>i < length P. length (S ! i) = length P \<and>
               (\<forall>j < length P. \<exists>v s. f (D ! i ! j) (expected_dist L C i j) = Inr v \<and>
                    to_dtype np_float v0 v = Inr s \<and>
                    (v = PyFloat NaN \<longrightarrow> S ! i ! j = Num 0) \<and>
                    (v \<noteq> PyFloat NaN \<longrightarrow> S ! i ! j = s))))"
      if len: "length L = length P"
    proof -
      from get_score_matrix_Inr [OF run len] obtain v0 where
        D: "D = cdist P P" and sl: "length S = length P"
        and f0: "f (D ! 0 ! 0) (expected_dist L C 0 0) = Inr v0"
        and e: "\<forall>i < length P. length (S ! i) = length P \<and>
               (\<forall>j < length P. \<exists>v s. f (D ! i ! j) (expected_dist L C i j) = Inr v \<and>
                    to_dtype np_float v0 v = Inr s \<and>
                    S ! i ! j = (if s = NaN then Num 0 else s))"
        by blast
      have "\<forall>i < length P. length (S ! i) = length P \<and>
               (\<forall>j < length P. \<exists>v s. f (D ! i ! j) (expected_dist L C i j) = Inr v \<and>
                    to_dtype np_float v0 v = Inr s \<and>
                    (v = PyFloat NaN \<longrightarrow> S ! i ! j = Num 0) \<and>
                    (v \<noteq> PyFloat NaN \<longrightarrow> S ! i ! j = s))"
      proof (intro allI impI conjI)
        fix i assume i: "i < length P"
        show "length (S ! i) = length P" using e i by blast
        fix j assume j: "j < length P"
        from e i j obtain v s where
          v: "f (D ! i ! j) (expected_dist L C i j) = Inr v" "to_dtype np_float v0 v = Inr s"
            "S ! i ! j = (if s = NaN then Num 0 else s)"
          by blast
        from to_dtype_NaN [OF v(2)] v(3)
        have "(v = PyFloat NaN \<longrightarrow> S ! i ! j = Num 0) \<and> (v \<noteq> PyFloat NaN \<longrightarrow> S ! i ! j = s)"
          by simp
        with v(1,2) show "\<exists>v s. f (D ! i ! j) (expected_dist L C i j) = Inr v \<and>
                    to_dtype np_float v0 v = Inr s \<and>
                    (v = PyFloat NaN \<longrightarrow> S ! i ! j = Num 0) \<and>
                    (v \<noteq> PyFloat NaN \<longrightarrow> S ! i ! j = s)"
          by blast
      qed
      with D sl f0 show ?thesis by blast
    qed
    show "(\<forall>row \<in> set S. \<forall>s \<in> set row. s \<noteq> NaN) \<and>
      (length L = length P \<longrightarrow>
         D = cdist P P \<and> length S = length P \<and>
         (\<exists>v0. f (D ! 0 ! 0) (expected_dist L C 0 0) = Inr v0 \<and>
            (\<forall>i < length P. length (S ! i) = length P \<and>
               (\<forall>j < length P. \<exists>v s. f (D ! i ! j) (expected_dist L C i j) = Inr v \<and>
                    to_dtype np_float v0 v = Inr s \<and>
                    (v = PyFloat NaN \<longrightarrow> S ! i ! j = Num 0) \<and>
                    (v \<noteq> PyFloat NaN \<longrightarrow> S ! i ! j = s)))))"
      using nonan entries by blast
  qed
next
  show "P \<noteq> [] \<and> length L = length P \<longrightarrow>
      ((\<exists>v0. f (cdist P P ! 0 ! 0) (expected_dist L C 0 0) = Inr v0 \<and>
          (\<forall>i < length P. \<forall>j < length P. \<exists>v s.
             f (cdist P P ! i ! j) (expected_dist L C i j) = Inr v \<and>
             to_dtype np_float v0 v = Inr s)) \<longrightarrow>
         (\<exists>S. get_score_matrix np_float P L C f = Inr (S, cdist P P))) \<and>
      ((\<exists>i < length P. \<exists>j < length P. \<exists>e.
          f (cdist P P ! i ! j) (expected_dist L C i j) = Inl e) \<longrightarrow>
         (\<exists>e. get_score_matrix np_float P L C f = Inl e))"
    using get_score_matrix_total [of P L f C _ np_float] get_score_matrix_raises [of P L _ _ f C _ np_float]
    by blast
next
  show "\<forall>S D. get_score_matrix np_float P L C canonical_score = Inr (S, D) \<and>
        length L = length P \<longrightarrow>
      (\<forall>i < length P. \<forall>j < length P.
         expected_dist L C i j \<noteq> Num 0 \<and>
         (\<not> allowed_pair C (L ! i) (L ! j) \<longrightarrow> S ! i ! j = Num 0))"
  proof (intro allI impI, elim conjE)
    fix S D i j
    assume run: "get_score_matrix np_float P L C canonical_score = Inr (S, D)"
      and len: "length L = length P" and i: "i < length P" and j: "j < length P"
    from get_score_matrix_Inr [OF run len] i j obtain v0 v s where
      v: "canonical_score (D ! i ! j) (expected_dist L C i j) = Inr v"
        "to_dtype np_float v0 v = Inr s" "S ! i ! j = (if s = NaN then Num 0 else s)"
      by blast
    note c = canonical_score_Inr [OF v(1)]
    have "S ! i ! j = Num 0" if "\<not> allowed_pair C (L ! i) (L ! j)"
    proof -
      from expected_dist_not_allowed [OF that] c have "v = PyFloat NaN" by simp
      with to_dtype_NaN [OF v(2)] v(3) show ?thesis by simp
    qed
    with c show "expected_dist L C i j \<noteq> Num 0 \<and>
         (\<not> allowed_pair C (L ! i) (L ! j) \<longrightarrow> S ! i ! j = Num 0)"
      by blast
  qed
qed

theorem get_score_matrix_nan_free_witness:
  "get_score_matrix real_of_int [[0, 0, 0], [0, 0, 10], [0, 0, 12]] [0, 1, 1]
       [0 \<mapsto> [1 \<mapsto> 10], 1 \<mapsto> Map.empty] canonical_score
     = Inr ([[Num 0, Num 1, Num (24 / 25)], [Num 0, Num 0, Num 0], [Num 0, Num 0, Num 0]],
            [[0, 10, 12], [10, 0, 2], [12, 2, 0]]) \<and>
   expected_dist [0, 1, 1] [0 \<mapsto> [1 \<mapsto> 10], 1 \<mapsto> Map.empty] 1 2 = NaN \<and>
   list_all (list_all (\<lambda>s. s \<noteq> NaN))
     [[Num 0, Num 1, Num (24 / 25)], [Num 0, Num 0, Num 0], [Num 0, Num 0, Num 0]]"
proof -
  let ?P = "[[0, 0, 0], [0, 0, 10], [0, 0, 12 :: real]]"
  let ?L = "[0, 1, 1 :: nat]"
  let ?C = "[0 \<mapsto> [1 \<mapsto> 10], 1 \<mapsto> Map.empty] :: label_adj"
  let ?S = "[[Num 0, Num 1, Num (24 / 25)], [Num 0, Num 0, Num 0], [Num 0, Num 0, Num 0]]"
  have run: "get_score_matrix real_of_int ?P ?L ?C canonical_score
      = Inr (?S, [[0, 10, 12], [10, 0, 2], [12, 2, 0]])"
    by (rule frame_example_scores)
  have e: "expected_dist ?L ?C 1 2 = NaN" by (simp add: expected_dist_def)
  have "\<forall>row \<in> set ?S. \<forall>s \<in> set row. s \<noteq> NaN"
    by (rule get_score_matrix_nan_free [of real_of_int ?P ?L ?C canonical_score,
          THEN conjunct1, rule_format, OF run, THEN conjunct1])
  then have "list_all (list_all (\<lambda>s. s \<noteq> NaN)) ?S" by (auto simp: list_all_iff)
  with run e show ?thesis by blast
qed

text \<open>
  Claim C8 as stated fails for a zero expected length under the canonical score: the
  score function is called with Python floats and raises ZeroDivisionError, so
  \<open>get_score_matrix\<close> raises and returns no matrix, where the claim has the entry \<open>0\<close>.
\<close>

theorem get_score_matrix_zero_length_counterexample:
  "get_score_matrix real_of_int [[0, 0, 0], [0, 0, 10]] [0, 1]
       [0 \<mapsto> [1 \<mapsto> 0], 1 \<mapsto> Map.empty] canonical_score = Inl ZeroDivisionError \<and>
   expected_dist [0, 1] [0 \<mapsto> [1 \<mapsto> 0], 1 \<mapsto> Map.empty] 0 1 = Num 0"
  by (simp only: get_score_matrix_def Let_def zero_example_pairs zero_example_call sum.case)
    (simp add: expected_dist_def)

section \<open>Properties of process_frame\<close>


lemma foot_to_pop_same_population:
  assumes "foot_to_pop h pa PM PD p q = Inr (h', a1, a2)" and "pa < length h"
    and "pa < length g" and "g ! pa = h ! pa"
  shows "\<exists>g'. foot_to_pop g pa PM PD p q = Inr (g', length g, Suc (length g)) \<and>
           g' ! length g = h' ! a1 \<and> g' ! Suc (length g) = h' ! a2"
  using assms
  by (auto simp: foot_to_pop_def alloc_def Let_def nth_append split: if_splits)

text \<open>The score matrix that \<open>get_score_matrix\<close> returns is always read as reals.\<close>

lemma get_score_matrix_reals:
  assumes "get_score_matrix np_float P L C f = Inr (S, D)"
  shows "\<exists>M. reals_of S = Some M"
proof -
  from assms have "\<exists>M. S = nan_to_zero M"
    by (auto simp: get_score_matrix_def Let_def split: sum.splits)
  then have "\<forall>row \<in> set S. \<forall>s \<in> set row. s \<noteq> NaN"
    using nan_to_zero_no_nan by blast
  then show ?thesis by (auto simp: reals_of_def)
qed

lemma process_frame_Some:
  assumes "process_frame np_sum np_float h pa L C radii cost score = Some (Inr res)"
  shows "\<exists>PM PD p q. foot_to_pop h pa PM (PD :: ext list) p q = Inr res \<and>
           (\<forall>g. g ! pa = h ! pa \<longrightarrow>
                process_frame np_sum np_float g pa L C radii cost score = Some (foot_to_pop g pa PM PD p q))"
proof -
  from assms obtain prev dists where
    sp: "pop_shortest_paths (h ! pa) L (only_consecutive_labels C) cost = Inr (prev, dists)"
    by (auto simp: process_frame_def Let_def split: sum.splits)
  from assms sp obtain PM PD where
    pf: "paths_to_foot (trace_path (is_head L)) prev dists L = Some (Inr (PM, PD))"
    by (auto simp: process_frame_def Let_def split: sum.splits option.splits)
  from assms sp pf obtain S D where
    sm: "get_score_matrix np_float (h ! pa) L C score = Inr (S, D)"
    by (auto simp: process_frame_def Let_def split: sum.splits)
  from assms sp pf sm obtain scores where
    ro: "reals_of S = Some scores"
    by (auto simp: process_frame_def Let_def split: option.splits)
  from assms sp pf sm ro obtain F where
    fp: "filter_by_path scores PM C = Inr F"
    by (auto simp: process_frame_def Let_def split: sum.splits)
  from assms sp pf sm ro fp obtain p q where
    sb: "select_best_feet np_sum D F PM radii = Inr (p, q)"
    by (auto simp: process_frame_def Let_def split: sum.splits)
  have run: "process_frame np_sum np_float g pa L C radii cost score = Some (foot_to_pop g pa PM PD p q)"
    if "g ! pa = h ! pa" for g
    using that sp pf sm ro fp sb by (simp add: process_frame_def Let_def)
  from run [of h] assms have "foot_to_pop h pa PM PD p q = Inr res" by simp
  with run show ?thesis by blast
qed

lemma frame_example_shortest_paths: "pop_shortest_paths [[0, 0, 0], [0, 0, 10], [0, 0, 12]] [0, 1, 1]
      (only_consecutive_labels [0 \<mapsto> [1 \<mapsto> 10], 1 \<mapsto> Map.empty]) (\<lambda>m e. (m - e)\<^sup>2)
   = Inr (dag_shortest_paths [[(1, 0), (2, 4)], [], []] [0, 1, 2] [0])"
  by (simp add: pop_shortest_paths_def points_to_graph_def only_consecutive_labels_def euclid_z
      upt_rec Let_def numeral_2_eq_2)

lemma frame_example_paths: "paths_to_foot (trace_path (is_head [0, 1, 1]))
     (fst (dag_shortest_paths [[(1, 0), (2, 4)], [], []] [0, 1, 2] [0]))
     (snd (dag_shortest_paths [[(1, 0), (2, 4)], [], []] [0, 1, 2] [0])) [0, 1, 1]
   = Some (Inr ([[0, 1], [0, 2]], [Fin 0, Fin 4]))"
  by code_simp

lemma frame_example_reals: "reals_of [[Num 0, Num 1, Num (24 / 25)], [Num 0, Num 0, Num 0], [Num 0, Num 0, Num 0]]
   = Some [[0, 1, 24 / 25], [0, 0, 0], [0, 0, 0]]"
  by code_simp

lemma frame_example_filtered: "filter_by_path [[0, 1, 24 / 25], [0, 0, 0], [0, 0, 0]] [[0, 1], [0, 2]]
     [0 \<mapsto> [1 \<mapsto> 10], 1 \<mapsto> Map.empty] = Inr [[0, 1, 24 / 25], [0, 0, 0], [0, 0, 0]]"
  by code_simp

lemma frame_example_feet: "select_best_feet exact_sum [[0, 10, 12], [10, 0, 2], [12, 2, 0]]
     [[0, 1, 24 / 25], [0, 0, 0], [0, 0, 0]] [[0, 1], [0, 2]] [1] = Inr (0, 1)"
  by code_simp

lemma frame_example_pops: "foot_to_pop [[[0, 0, 0], [0, 0, 10], [0, 0, 12]]] 0 [[0, 1], [0, 2]] [Fin 0, Fin 4] 0 1
   = Inr ([[[0, 0, 0], [0, 0, 10], [0, 0, 12]], [[0, 0, 0], [0, 0, 10]], [[0, 0, 0], [0, 0, 12]]], 1, 2)"
  by code_simp

lemma frame_example_run: "process_frame exact_sum real_of_int [[[0, 0, 0], [0, 0, 10], [0, 0, 12]]] 0 [0, 1, 1]
     [0 \<mapsto> [1 \<mapsto> 10], 1 \<mapsto> Map.empty] [1] (\<lambda>m e. (m - e)\<^sup>2)
     canonical_score
   = Some (Inr ([[[0, 0, 0], [0, 0, 10], [0, 0, 12]], [[0, 0, 0], [0, 0, 10]], [[0, 0, 0], [0, 0, 12]]], 1, 2))"
  by (simp only: process_frame_def Let_def nth_Cons_0 frame_example_shortest_paths frame_example_paths frame_example_scores frame_example_reals frame_example_filtered frame_example_feet
      frame_example_pops sum.case option.case prod.case case_prod_beta fst_conv snd_conv)

text \<open>
  Claim C10. \<open>foot_to_pop\<close>, and with it \<open>process_frame\<close>, leaves every array that is
  in the store before the call as it is, the population among them: the two returned
  arrays are at fresh addresses, and the head rows are written to them alone. Hence
  running \<open>process_frame\<close> again on the resulting store returns arrays with the same
  contents.
\<close>

theorem process_frame_population_unchanged:
  assumes "pa < length h"
  shows "(\<forall>PM (PD :: ext list) p q h' a1 a2.
            foot_to_pop h pa PM PD p q = Inr (h', a1, a2) \<longrightarrow>
              (\<forall>a < length h. h' ! a = h ! a) \<and>
              a1 = length h \<and> a2 = Suc (length h) \<and> length h' = Suc (Suc (length h))) \<and>
         (\<forall>h' a1 a2.
            process_frame np_sum np_float h pa L C radii cost score = Some (Inr (h', a1, a2)) \<longrightarrow>
              (\<forall>a < length h. h' ! a = h ! a) \<and>
              a1 = length h \<and> a2 = Suc (length h) \<and> length h' = Suc (Suc (length h)) \<and>
              (\<exists>h'' b1 b2.
                 process_frame np_sum np_float h' pa L C radii cost score = Some (Inr (h'', b1, b2)) \<and>
                 h'' ! b1 = h' ! a1 \<and> h'' ! b2 = h' ! a2))"
proof (rule conjI)
  show "\<forall>PM (PD :: ext list) p q h' a1 a2.
            foot_to_pop h pa PM PD p q = Inr (h', a1, a2) \<longrightarrow>
              (\<forall>a < length h. h' ! a = h ! a) \<and>
              a1 = length h \<and> a2 = Suc (length h) \<and> length h' = Suc (Suc (length h))"
  proof (intro allI impI)
    fix PM and PD :: "ext list" and p q h' a1 a2
    assume f: "foot_to_pop h pa PM PD p q = Inr (h', a1, a2)"
    note r = foot_to_pop_Inr(1-4) [OF f assms]
    show "(\<forall>a < length h. h' ! a = h ! a) \<and>
              a1 = length h \<and> a2 = Suc (length h) \<and> length h' = Suc (Suc (length h))"
      using r by simp
  qed
next
  show "\<forall>h' a1 a2.
            process_frame np_sum np_float h pa L C radii cost score = Some (Inr (h', a1, a2)) \<longrightarrow>
              (\<forall>a < length h. h' ! a = h ! a) \<and>
              a1 = length h \<and> a2 = Suc (length h) \<and> length h' = Suc (Suc (length h)) \<and>
              (\<exists>h'' b1 b2.
                 process_frame np_sum np_float h' pa L C radii cost score = Some (Inr (h'', b1, b2)) \<and>
                 h'' ! b1 = h' ! a1 \<and> h'' ! b2 = h' ! a2)"
  proof (intro allI impI)
    fix h' a1 a2
    assume run: "process_frame np_sum np_float h pa L C radii cost score = Some (Inr (h', a1, a2))"
    from process_frame_Some [OF run] obtain PM PD p q where
      f: "foot_to_pop h pa PM (PD :: ext list) p q = Inr (h', a1, a2)"
      and again: "\<forall>g. g ! pa = h ! pa \<longrightarrow>
                process_frame np_sum np_float g pa L C radii cost score = Some (foot_to_pop g pa PM PD p q)"
      by blast
    note r = foot_to_pop_Inr(1-4) [OF f assms]
    have same: "h' ! pa = h ! pa" and pa': "pa < length h'" using r assms by auto
    from foot_to_pop_same_population [OF f assms pa' same]
    obtain g' where g': "foot_to_pop h' pa PM PD p q = Inr (g', length h', Suc (length h'))"
      "g' ! length h' = h' ! a1" "g' ! Suc (length h') = h' ! a2"
      by blast
    have "process_frame np_sum np_float h' pa L C radii cost score = Some (Inr (g', length h', Suc (length h')))"
      using again same g'(1) by simp
    with g'(2,3) have "\<exists>h'' b1 b2.
                 process_frame np_sum np_float h' pa L C radii cost score = Some (Inr (h'', b1, b2)) \<and>
                 h'' ! b1 = h' ! a1 \<and> h'' ! b2 = h' ! a2"
      by blast
    with r show "(\<forall>a < length h. h' ! a = h ! a) \<and>
              a1 = length h \<and> a2 = Suc (length h) \<and> length h' = Suc (Suc (length h)) \<and>
              (\<exists>h'' b1 b2.
                 process_frame np_sum np_float h' pa L C radii cost score = Some (Inr (h'', b1, b2)) \<and>
                 h'' ! b1 = h' ! a1 \<and> h'' ! b2 = h' ! a2)"
      by blast
  qed
qed


theorem process_frame_population_unchanged_witness:
  "0 < length [[[0, 0, 0], [0, 0, 10], [0, 0, 12 :: real]]] \<and>
   process_frame exact_sum real_of_int [[[0, 0, 0], [0, 0, 10], [0, 0, 12]]] 0 [0, 1, 1]
     [0 \<mapsto> [1 \<mapsto> 10], 1 \<mapsto> Map.empty] [1] (\<lambda>m e. (m - e)\<^sup>2)
     canonical_score
   = Some (Inr ([[[0, 0, 0], [0, 0, 10], [0, 0, 12]], [[0, 0, 0], [0, 0, 10]],
                 [[0, 0, 0], [0, 0, 12]]], 1, 2)) \<and>
   (\<exists>h'' b1 b2.
      process_frame exact_sum real_of_int
        [[[0, 0, 0], [0, 0, 10], [0, 0, 12]], [[0, 0, 0], [0, 0, 10]],
                     [[0, 0, 0], [0, 0, 12]]] 0 [0, 1, 1]
        [0 \<mapsto> [1 \<mapsto> 10], 1 \<mapsto> Map.empty] [1] (\<lambda>m e. (m - e)\<^sup>2)
        canonical_score
      = Some (Inr (h'', b1, b2)) \<and>
      h'' ! b1 = [[0, 0, 0], [0, 0, 10]] \<and> h'' ! b2 = [[0, 0, 0], [0, 0, 12]])"
proof -
  let ?h = "[[[0, 0, 0], [0, 0, 10], [0, 0, 12 :: real]]]"
  let ?h' = "[[[0, 0, 0], [0, 0, 10], [0, 0, 12 :: real]], [[0, 0, 0], [0, 0, 10]],
              [[0, 0, 0], [0, 0, 12]]]"
  let ?L = "[0, 1, 1 :: nat]"
  let ?C = "[0 \<mapsto> [1 \<mapsto> 10], 1 \<mapsto> Map.empty] :: label_adj"
  let ?cost = "\<lambda>(m :: real) e. (m - e)\<^sup>2"
  have a: "0 < length ?h" by simp
  have run: "process_frame exact_sum real_of_int ?h 0 ?L ?C [1] ?cost canonical_score = Some (Inr (?h', 1, 2))"
    by (rule frame_example_run)
  from process_frame_population_unchanged [OF a, where L = ?L and C = ?C and radii = "[1]"
      and cost = ?cost and score = canonical_score and np_sum = exact_sum
      and np_float = real_of_int] run
  have "\<exists>h'' b1 b2. process_frame exact_sum real_of_int ?h' 0 ?L ?C [1] ?cost canonical_score = Some (Inr (h'', b1, b2)) \<and>
      h'' ! b1 = ?h' ! 1 \<and> h'' ! b2 = ?h' ! 2"
    by blast
  then show ?thesis using a run by simp
qed

section \<open>Properties of estimate_lengths\<close>


lemma two_feet_graph:
  "points_to_graph [[0, 0, 0], [0, 0, a], [0, 0, b]] [0, Suc 0, Suc 0] (length_dict_of (Suc 0) [l]) cost
     = Inr [[(Suc 0, cost \<bar>a\<bar> l), (Suc (Suc 0), cost \<bar>b\<bar> l)], [], []]"
  by (simp add: points_to_graph_def length_dict_of_def euclid_z upt_rec)

lemma two_feet_paths:
  "min_shortest_path
      (fst (dag_shortest_paths [[(Suc 0, w1), (Suc (Suc 0), w2)], [], []] [0, Suc 0, Suc (Suc 0)] [0]))
      (snd (dag_shortest_paths [[(Suc 0, w1), (Suc (Suc 0), w2)], [], []] [0, Suc 0, Suc (Suc 0)] [0]))
      [0, Suc 0, Suc 0] (Suc 0)
    = Some (Inr (if w1 \<le> w2 then [0, Suc 0] else [0, Suc (Suc 0)]))"
  by (simp add: min_shortest_path_def dag_shortest_paths_def relax_edge_def less_ext_def upt_rec Let_def
      trace_path_def trace_chain.simps is_head_def)

lemma two_feet_shortest_paths:
  "pop_shortest_paths [[0, 0, 0], [0, 0, a], [0, 0, b]] [0, Suc 0, Suc 0] (length_dict_of (Suc 0) [l]) cost
     = Inr (dag_shortest_paths [[(Suc 0, cost \<bar>a\<bar> l), (Suc (Suc 0), cost \<bar>b\<bar> l)], [], []]
              [0, Suc 0, Suc (Suc 0)] [0])"
  by (simp add: pop_shortest_paths_def two_feet_graph upt_rec)

lemma two_feet_frame_lengths:
  "frame_lengths cost (length_dict_of (Suc 0) [l]) (Suc 0) [[0, 0, 0], [0, 0, a], [0, 0, b]] [0, Suc 0, Suc 0]
     = Some (Inr [if cost \<bar>a\<bar> l \<le> cost \<bar>b\<bar> l then \<bar>a\<bar> else \<bar>b\<bar>])"
  by (simp add: frame_lengths_def two_feet_shortest_paths two_feet_paths split_beta
      consecutive_dist_def euclid_z assign_row_def)

lemma two_feet_iteration:
  "iteration [(f, [[0, 0, 0], [0, 0, a], [0, 0, b]])] [(f, [0, Suc 0, Suc 0])] cost (Suc 0) (Suc 0) [l]
     = Some (Inr [if cost \<bar>a\<bar> l \<le> cost \<bar>b\<bar> l then \<bar>a\<bar> else \<bar>b\<bar>])"
  by (simp add: iteration_def two_feet_frame_lengths median_def)




lemma lengths_loop_Some:
  assumes "lengths_loop ps ls cost nf nl eps l = Some y"
  shows "\<exists>k prev. lengths_after ps ls cost nf nl eps l k = Some prev \<and>
           ((\<exists>new. iteration ps ls cost nf nl prev = Some (Inr new) \<and> stop_test new prev eps \<and>
                   y = Inr new) \<or>
            (\<exists>e. iteration ps ls cost nf nl prev = Some (Inl e) \<and> y = Inl e))"
  using assms
proof (induction rule: lengths_loop.raw_induct [rotated 1, consumes 1])
  case (1 f ps ls cost nf nl eps l y)
  show ?case
  proof (cases "iteration ps ls cost nf nl l")
    case None
    with 1(2) show ?thesis by simp
  next
    case (Some res)
    show ?thesis
    proof (cases res)
      case (Inl e)
      with Some 1(2) have "y = Inl e" by simp
      with Some Inl show ?thesis by (intro exI [of _ 0] exI [of _ l]) simp
    next
      case (Inr new)
      show ?thesis
      proof (cases "stop_test new l eps")
        case True
        with Some Inr 1(2) have "y = Inr new" by simp
        with Some Inr True show ?thesis by (intro exI [of _ 0] exI [of _ l]) simp
      next
        case False
        with Some Inr 1(2) have "f ps ls cost nf nl eps new = Some y" by simp
        from 1(1) [OF this] obtain k prev where
          k: "lengths_after ps ls cost nf nl eps new k = Some prev"
          and out: "(\<exists>new. iteration ps ls cost nf nl prev = Some (Inr new) \<and> stop_test new prev eps \<and>
                   y = Inr new) \<or>
            (\<exists>e. iteration ps ls cost nf nl prev = Some (Inl e) \<and> y = Inl e)"
          by blast
        have "lengths_after ps ls cost nf nl eps l (Suc k) = Some prev"
          using Some Inr False k by simp
        with out show ?thesis by blast
      qed
    qed
  qed
qed

lemma lengths_loop_stops:
  "lengths_after ps ls cost nf nl eps l k = Some prev \<Longrightarrow>
   iteration ps ls cost nf nl prev = Some (Inr new) \<Longrightarrow> stop_test new prev eps \<Longrightarrow>
   lengths_loop ps ls cost nf nl eps l = Some (Inr new)"
proof (induction k arbitrary: l)
  case 0
  then show ?case by (subst lengths_loop.simps) simp
next
  case (Suc k)
  from Suc.prems(1) obtain mid where
    it: "iteration ps ls cost nf nl l = Some (Inr mid)" and ns: "\<not> stop_test mid l eps"
    and rest: "lengths_after ps ls cost nf nl eps mid k = Some prev"
    by (auto split: option.splits sum.splits if_splits)
  have "lengths_loop ps ls cost nf nl eps mid = Some (Inr new)"
    using rest Suc.prems(2,3) by (rule Suc.IH)
  then show ?case using it ns by (subst lengths_loop.simps) simp
qed

lemma lengths_loop_never:
  assumes "\<forall>k. \<exists>prev new. lengths_after ps ls cost nf nl eps l k = Some prev \<and>
             iteration ps ls cost nf nl prev = Some (Inr new) \<and> \<not> stop_test new prev eps"
  shows "lengths_loop ps ls cost nf nl eps l = None"
proof (rule ccontr)
  assume "lengths_loop ps ls cost nf nl eps l \<noteq> None"
  then obtain y where "lengths_loop ps ls cost nf nl eps l = Some y" by auto
  from lengths_loop_Some [OF this] obtain k prev where
    k: "lengths_after ps ls cost nf nl eps l k = Some prev"
    and out: "(\<exists>new. iteration ps ls cost nf nl prev = Some (Inr new) \<and> stop_test new prev eps \<and>
                   y = Inr new) \<or>
            (\<exists>e. iteration ps ls cost nf nl prev = Some (Inl e) \<and> y = Inl e)"
    by blast
  from assms obtain prev' new' where
    "lengths_after ps ls cost nf nl eps l k = Some prev'"
    "iteration ps ls cost nf nl prev' = Some (Inr new')" "\<not> stop_test new' prev' eps"
    by blast
  with k out show False by auto
qed



text \<open>
  Claim C9, as amended. \<open>estimate_lengths\<close> has no bound on its passes and no
  \<open>LENGTH_NOT_CONVERGED\<close> result. It returns lengths exactly when some pass of its loop
  produces lengths that pass its stopping test, every pass before having produced
  lengths that failed it, and it returns the lengths of that pass; when every pass
  produces lengths that fail the test, it never returns.
\<close>

theorem estimate_lengths_returns_iff:
  assumes "label_series = first # rest" and "snd first \<noteq> []"
  shows "let nl = Max (set (snd first));
             after = lengths_after ps label_series cost nf nl eps (replicate nl 0)
         in (estimate_lengths ps label_series cost nf eps = Some (Inr r) \<longleftrightarrow>
               (\<exists>k prev. after k = Some prev \<and>
                  iteration ps label_series cost nf nl prev = Some (Inr r) \<and>
                  stop_test r prev eps)) \<and>
            ((\<forall>k. \<exists>prev new. after k = Some prev \<and>
                  iteration ps label_series cost nf nl prev = Some (Inr new) \<and>
                  \<not> stop_test new prev eps) \<longrightarrow>
               estimate_lengths ps label_series cost nf eps = None)"
proof -
  let ?nl = "Max (set (snd first))"
  have est: "estimate_lengths ps label_series cost nf eps
      = lengths_loop ps label_series cost nf ?nl eps (replicate ?nl 0)"
    using assms by (simp add: estimate_lengths_def Let_def)
  have iff: "lengths_loop ps label_series cost nf ?nl eps (replicate ?nl 0) = Some (Inr r) \<longleftrightarrow>
      (\<exists>k prev. lengths_after ps label_series cost nf ?nl eps (replicate ?nl 0) k = Some prev \<and>
          iteration ps label_series cost nf ?nl prev = Some (Inr r) \<and> stop_test r prev eps)"
    using lengths_loop_Some [of ps label_series cost nf ?nl eps "replicate ?nl 0" "Inr r"]
      lengths_loop_stops [of ps label_series cost nf ?nl eps "replicate ?nl 0" _ _ r]
    by auto
  show ?thesis
    unfolding Let_def est using iff lengths_loop_never by blast
qed


theorem estimate_lengths_returns_iff_witness:
  "[(0 :: nat, [0, 1, 1 :: nat])] = (0, [0, 1, 1]) # [] \<and> snd (0 :: nat, [0, 1, 1 :: nat]) \<noteq> [] \<and>
   lengths_after [(0, [[0, 0, 0], [0, 0, 10], [0, 0, 12]])] [(0, [0, 1, 1])]
     (\<lambda>m e. (m - e)\<^sup>2) 1 1 (1 / 100) [0] 1 = Some [10] \<and>
   iteration [(0, [[0, 0, 0], [0, 0, 10], [0, 0, 12]])] [(0, [0, 1, 1])]
     (\<lambda>m e. (m - e)\<^sup>2) 1 1 [10] = Some (Inr [10]) \<and>
   stop_test [10] [10] (1 / 100) \<and>
   estimate_lengths [(0, [[0, 0, 0], [0, 0, 10], [0, 0, 12]])] [(0, [0, 1, 1])]
     (\<lambda>m e. (m - e)\<^sup>2) 1 (1 / 100) = Some (Inr [10])"
proof -
  let ?ps = "[(0 :: nat, [[0, 0, 0], [0, 0, 10], [0, 0, 12 :: real]])]"
  let ?ls = "[(0 :: nat, [0, 1, 1 :: nat])]"
  let ?cost = "\<lambda>(m :: real) e. (m - e)\<^sup>2"
  have h1: "?ls = (0, [0, 1, 1]) # []" and h2: "snd (0 :: nat, [0, 1, 1 :: nat]) \<noteq> []" by simp_all
  have nl: "Max (set (snd (0 :: nat, [0, 1, 1 :: nat]))) = 1" by simp
  have after: "lengths_after ?ps ?ls ?cost 1 1 (1 / 100) [0] 1 = Some [10]"
    by (simp add: two_feet_iteration stop_test_def)
  have it: "iteration ?ps ?ls ?cost 1 1 [10] = Some (Inr [10])"
    by (simp add: two_feet_iteration)
  have st: "stop_test [10] [10] (1 / 100)" by (simp add: stop_test_def)
  from estimate_lengths_returns_iff [OF h1 h2, where ps = ?ps and cost = ?cost and nf = 1
      and eps = "1 / 100" and r = "[10]"]
  have "estimate_lengths ?ps ?ls ?cost 1 (1 / 100) = Some (Inr [10]) \<longleftrightarrow>
      (\<exists>k prev. lengths_after ?ps ?ls ?cost 1 1 (1 / 100) (replicate 1 0) k = Some prev \<and>
          iteration ?ps ?ls ?cost 1 1 prev = Some (Inr [10]) \<and> stop_test [10] prev (1 / 100))"
    unfolding Let_def nl by blast
  moreover have "lengths_after ?ps ?ls ?cost 1 1 (1 / 100) (replicate 1 0) 1 = Some [10]"
    using after by simp
  ultimately have "estimate_lengths ?ps ?ls ?cost 1 (1 / 100) = Some (Inr [10])"
    using it st by blast
  with after it st show ?thesis by simp
qed

lemma oscillation_after:
  "lengths_after [(0, [[0, 0, 0], [0, 0, 10], [0, 0, 12]])] [(0, [0, Suc 0, Suc 0])]
     (\<lambda>m e. 1 / (1 + \<bar>m - e\<bar>)) (Suc 0) (Suc 0) (1 / 100) [12] k
     = Some (if even k then [12] else [10]) \<and>
   lengths_after [(0, [[0, 0, 0], [0, 0, 10], [0, 0, 12]])] [(0, [0, Suc 0, Suc 0])]
     (\<lambda>m e. 1 / (1 + \<bar>m - e\<bar>)) (Suc 0) (Suc 0) (1 / 100) [10] k
     = Some (if even k then [10] else [12])"
  by (induction k) (simp_all add: two_feet_iteration stop_test_def)

lemma oscillation_never_stops:
  "\<exists>prev new.
     lengths_after [(0, [[0, 0, 0], [0, 0, 10], [0, 0, 12]])] [(0, [0, Suc 0, Suc 0])]
       (\<lambda>m e. 1 / (1 + \<bar>m - e\<bar>)) (Suc 0) (Suc 0) (1 / 100) [0] k = Some prev \<and>
     iteration [(0, [[0, 0, 0], [0, 0, 10], [0, 0, 12]])] [(0, [0, Suc 0, Suc 0])]
       (\<lambda>m e. 1 / (1 + \<bar>m - e\<bar>)) (Suc 0) (Suc 0) prev = Some (Inr new) \<and>
     \<not> stop_test new prev (1 / 100)"
proof (cases k)
  case 0
  then show ?thesis by (simp add: two_feet_iteration stop_test_def)
next
  case (Suc j)
  have "lengths_after [(0, [[0, 0, 0], [0, 0, 10], [0, 0, 12]])] [(0, [0, Suc 0, Suc 0])]
       (\<lambda>m e. 1 / (1 + \<bar>m - e\<bar>)) (Suc 0) (Suc 0) (1 / 100) [0] (Suc j)
     = Some (if even j then [12] else [10])"
    using oscillation_after [of j] by (simp add: two_feet_iteration stop_test_def)
  then show ?thesis
    unfolding Suc by (cases "even j") (simp_all add: two_feet_iteration stop_test_def)
qed

text \<open>
  Claim C9 as stated fails: with one frame of a head and two feet at distances 10 and 12
  and the cost \<open>1 / (1 + |measured - expected|)\<close>, the estimated length alternates
  between 12 and 10 for ever, and the call never returns.
\<close>

theorem estimate_lengths_unbounded_counterexample:
  "estimate_lengths [(0, [[0, 0, 0], [0, 0, 10], [0, 0, 12]])] [(0, [0, 1, 1])]
     (\<lambda>m e. 1 / (1 + \<bar>m - e\<bar>)) 1 (1 / 100) = None"
proof -
  have "lengths_loop [(0, [[0, 0, 0], [0, 0, 10], [0, 0, 12]])] [(0, [0, Suc 0, Suc 0])]
       (\<lambda>m e. 1 / (1 + \<bar>m - e\<bar>)) (Suc 0) (Suc 0) (1 / 100) [0] = None"
    by (rule lengths_loop_never) (use oscillation_never_stops in blast)
  then show ?thesis by (simp add: estimate_lengths_def)
qed



lemma chain_graph:
  "points_to_graph [[0, 0, 0], [0, 0, 0], [0, 0, 10]] [0, Suc 0, Suc (Suc 0)]
      (length_dict_of (Suc (Suc 0)) [l0, l1]) cost
     = Inr [[(Suc 0, cost 0 l0)], [(Suc (Suc 0), cost 10 l1)], []]"
  by (simp add: points_to_graph_def length_dict_of_def euclid_z upt_rec)

lemma chain_paths:
  "min_shortest_path
      (fst (dag_shortest_paths [[(Suc 0, w1)], [(Suc (Suc 0), w2)], []] [0, Suc 0, Suc (Suc 0)] [0]))
      (snd (dag_shortest_paths [[(Suc 0, w1)], [(Suc (Suc 0), w2)], []] [0, Suc 0, Suc (Suc 0)] [0]))
      [0, Suc 0, Suc (Suc 0)] (Suc (Suc 0))
    = Some (Inr [0, Suc 0, Suc (Suc 0)])"
  by (simp add: min_shortest_path_def dag_shortest_paths_def relax_edge_def less_ext_def upt_rec Let_def
      trace_path_def trace_chain.simps is_head_def)

lemma chain_shortest_paths:
  "pop_shortest_paths [[0, 0, 0], [0, 0, 0], [0, 0, 10]] [0, Suc 0, Suc (Suc 0)]
      (length_dict_of (Suc (Suc 0)) [l0, l1]) cost
     = Inr (dag_shortest_paths [[(Suc 0, cost 0 l0)], [(Suc (Suc 0), cost 10 l1)], []]
              [0, Suc 0, Suc (Suc 0)] [0])"
  by (simp add: pop_shortest_paths_def chain_graph upt_rec)

lemma chain_frame_lengths:
  "frame_lengths cost (length_dict_of (Suc (Suc 0)) [l0, l1]) (Suc (Suc 0))
      [[0, 0, 0], [0, 0, 0], [0, 0, 10]] [0, Suc 0, Suc (Suc 0)]
     = Some (Inr [0, 10])"
  by (simp add: frame_lengths_def chain_shortest_paths chain_paths split_beta
      consecutive_dist_def euclid_z assign_row_def)

lemma chain_iteration:
  "iteration [(f, [[0, 0, 0], [0, 0, 0], [0, 0, 10]])] [(f, [0, Suc 0, Suc (Suc 0)])] cost
      (Suc 0) (Suc (Suc 0)) [l0, l1]
     = Some (Inr [0, 10])"
  by (simp add: iteration_def chain_frame_lengths median_def upt_rec)

text \<open>
  Claim C1, at a failing input. One frame with head and hip at the same point and a foot
  at distance 10, the canonical cost and \<open>eps = 0.01\<close>: the first pass gives the lengths
  \<open>[0, 10]\<close> from \<open>[0, 0]\<close>, the stopping test of the source holds because one length
  has not changed at all, and the call returns after that pass although the other length
  has changed by 10. Conversely, the test fails for a change of \<open>0.001\<close> in every length,
  which is below \<open>eps\<close>.
\<close>

theorem estimate_lengths_stops_early:
  "estimate_lengths [(0, [[0, 0, 0], [0, 0, 0], [0, 0, 10]])] [(0, [0, 1, 2])]
     (\<lambda>m e. (m - e)\<^sup>2) 1 (1 / 100) = Some (Inr [0, 10]) \<and>
   iteration [(0, [[0, 0, 0], [0, 0, 0], [0, 0, 10]])] [(0, [0, 1, 2])]
     (\<lambda>m e. (m - e)\<^sup>2) 1 2 [0, 0] = Some (Inr [0, 10]) \<and>
   stop_test [0, 10] [0, 0] (1 / 100) \<and>
   \<not> all_changed_less [0, 10] [0, 0] (1 / 100) \<and>
   \<not> stop_test [10] [10 + 1 / 1000] (1 / 100) \<and>
   all_changed_less [10] [10 + 1 / 1000] (1 / 100)"
proof -
  have it: "iteration [(0, [[0, 0, 0], [0, 0, 0], [0, 0, 10]])] [(0, [0, 1, 2])]
     (\<lambda>m e. (m - e)\<^sup>2) 1 2 [0, 0] = Some (Inr [0, 10])"
    by (simp add: chain_iteration numeral_2_eq_2)
  have st: "stop_test [0, 10] [0, 0] (1 / 100)" by (simp add: stop_test_def)
  have "lengths_loop [(0, [[0, 0, 0], [0, 0, 0], [0, 0, 10]])] [(0, [0, 1, 2])]
     (\<lambda>m e. (m - e)\<^sup>2) 1 2 (1 / 100) [0, 0] = Some (Inr [0, 10])"
    by (subst lengths_loop.simps) (simp only: it st option.case sum.case if_True)
  moreover have "Max (set [0, 1, 2 :: nat]) = 2" by simp
  ultimately have run: "estimate_lengths [(0, [[0, 0, 0], [0, 0, 0], [0, 0, 10]])] [(0, [0, 1, 2])]
     (\<lambda>m e. (m - e)\<^sup>2) 1 (1 / 100) = Some (Inr [0, 10])"
    by (simp add: estimate_lengths_def numeral_2_eq_2)
  show ?thesis
    using run it st by (simp add: all_changed_less_def stop_test_def)
qed

theorem estimate_lengths_stops_early_witness:
  "estimate_lengths [(0, [[0, 0, 0], [0, 0, 0], [0, 0, 10]])] [(0, [0, 1, 2])]
     (\<lambda>m e. (m - e)\<^sup>2) 1 (1 / 100) = Some (Inr [0, 10]) \<and>
   stop_test [0, 10] [0, 0] (1 / 100) \<and>
   \<not> all_changed_less [0, 10] [0, 0] (1 / 100)"
  using estimate_lengths_stops_early by blast


end
